theory Spec2Isabelle
  imports Main "HOL-Library.AList"
begin

section \<open>Values exchanged with the vendor SDK\<close>

text \<open>
  The program (\<^verbatim>\<open>gcloud-backup.go\<close>, the later of the two variants in the source file)
  never looks inside a firewall, route, network or address: it forwards the vendor's
  structs to \<^verbatim>\<open>encoding/json\<close>. A resource is therefore modelled by the JSON document
  its vendor type marshals to.
\<close>

datatype json =
    JNull
  | JBool bool
  | JNum int
  | JStr string
  | JArr "json list"
  | JObj "(string \<times> json) list"

type_synonym Firewall = json
type_synonym Route = json
type_synonym Network = json
type_synonym Address = json

text \<open>
  A Go slice is \<^verbatim>\<open>nil\<close> or a sequence: \<open>None\<close> is the nil slice. \<^verbatim>\<open>len\<close> of a
  nil slice is 0.
\<close>

type_synonym 'a slice = "'a list option"

definition len :: "'a slice \<Rightarrow> nat" where
  "len s = (case s of None \<Rightarrow> 0 | Some xs \<Rightarrow> length xs)"

text \<open>
  A Go map is modelled by an association list whose keys are distinct (\<open>gomap_ok\<close>);
  \<^verbatim>\<open>m[k] = v\<close> is \<open>AList.update k v m\<close>, a lookup is \<open>map_of m k\<close>. Go leaves the order
  of \<^verbatim>\<open>range\<close> over a map unspecified; the model ranges in list order, and
  \<open>exportAddresses_order\<close> below shows that the map built does not depend on it.
\<close>

type_synonym ('k, 'v) gomap = "('k \<times> 'v) list"

definition gomap_ok :: "('k, 'v) gomap \<Rightarrow> bool" where
  "gomap_ok m = distinct (map fst m)"

text \<open>\<^verbatim>\<open>compute.AddressesScopedList\<close>: the addresses of one zone or region, and a warning
  the program never reads.\<close>

record AddressesScopedList =
  Addresses :: "Address slice"
  Warning :: "json option"

text \<open>
  An \<^verbatim>\<open>error\<close> value is modelled by its message; the SDK configuration and the client
  handle are opaque values, told apart by a name.
\<close>

type_synonym error = string

datatype sdk_config = SDKConfig string
datatype compute_Service = ComputeService string

text \<open>
  The answers of the outside world, one field per SDK call the program makes; \<open>Inl\<close> is
  a non-nil \<^verbatim>\<open>err\<close>. A list call answers with the \<^verbatim>\<open>Items\<close> of its response (the program
  reads nothing else of it, in particular no page token). The answers are functions of
  the arguments of the call: fetch results are deterministic.
\<close>

record api =
  NewSDKConfig :: "string \<Rightarrow> error + sdk_config"
  compute_New :: "sdk_config \<Rightarrow> error + compute_Service"
  Firewalls_List :: "compute_Service \<Rightarrow> string \<Rightarrow> error + Firewall slice"
  Routes_List :: "compute_Service \<Rightarrow> string \<Rightarrow> error + Route slice"
  Networks_List :: "compute_Service \<Rightarrow> string \<Rightarrow> error + Network slice"
  Addresses_AggregatedList ::
    "compute_Service \<Rightarrow> string \<Rightarrow> error + (string, AddressesScopedList) gomap"

section \<open>The program's types and globals\<close>

record Flags =
  Version :: bool
  Help :: bool
  Import :: bool
  Export :: bool
  Readable :: bool
  Service :: string
  Account :: string
  Project :: string
  Region :: string

record Config =
  Service :: "string list"
  Account :: string
  Action_Import :: bool
  Action_Export :: bool
  Project :: string
  Region :: string

record jsonData =
  Firewalls :: "Firewall slice"
  Routes :: "Route slice"
  Networks :: "Network slice"
  Addresses :: "(string, Address slice) gomap option"

text \<open>The package-level variables \<^verbatim>\<open>flags\<close>, \<^verbatim>\<open>config\<close> and \<^verbatim>\<open>service\<close>.\<close>

record globals =
  flags :: Flags
  config :: Config
  service :: "compute_Service option"

section \<open>Effects\<close>

text \<open>
  The errors of \<^verbatim>\<open>flag.Parse\<close>: \<^verbatim>\<open>bad flag syntax: s\<close>, \<^verbatim>\<open>flag provided but not defined: -name\<close>,
  \<^verbatim>\<open>invalid boolean value "v" for -name\<close> and \<^verbatim>\<open>flag needs an argument: -name\<close>.
\<close>

datatype flag_error =
    BadSyntax string
  | NotDefined string
  | InvalidBoolean string string
  | NeedsArgument string

text \<open>
  What the process has written to standard error (one entry per call; a \<^verbatim>\<open>log\<close> line
  is kept without its time stamp, the text of \<^verbatim>\<open>flag.PrintDefaults\<close> is kept as a
  marker, the line of an error of \<^verbatim>\<open>flag.Parse\<close> as the error), the bytes written to
  standard output, and the SDK calls issued so far.
\<close>

datatype written = Fprintf string | Log string | PrintDefaults | FlagError flag_error

datatype call =
    Call_NewSDKConfig string
  | Call_compute_New
  | Call_Firewalls_List string
  | Call_Routes_List string
  | Call_Networks_List string
  | Call_Addresses_AggregatedList string

record world =
  stderr :: "written list"
  stdout :: string
  calls :: "call list"

text \<open>A step either ends the process (\<^verbatim>\<open>os.Exit\<close>) or returns a value.\<close>

datatype 'a run = Exit nat world | Return 'a world

definition log_Printf :: "string \<Rightarrow> world \<Rightarrow> world" where
  "log_Printf msg w = w\<lparr>stderr := stderr w @ [Log msg]\<rparr>"

definition log_Fatal :: "error \<Rightarrow> world \<Rightarrow> 'a run" where
  "log_Fatal err w = Exit 1 (log_Printf err w)"

definition request :: "call \<Rightarrow> world \<Rightarrow> world" where
  "request c w = w\<lparr>calls := calls w @ [c]\<rparr>"

section \<open>The exporters\<close>

definition exportNetworks :: "api \<Rightarrow> globals \<Rightarrow> jsonData \<Rightarrow> world \<Rightarrow> jsonData run" where
  "exportNetworks a g exp w =
     (case service g of
        None \<Rightarrow> Return exp w
      | Some svc \<Rightarrow>
          (let w' = request (Call_Networks_List (Config.Project (config g))) w in
           case Networks_List a svc (Config.Project (config g)) of
             Inl err \<Rightarrow> log_Fatal err w'
           | Inr items \<Rightarrow> Return (exp\<lparr>Networks := items\<rparr>) w'))"

text \<open>The body of the \<^verbatim>\<open>range list.Items\<close> loop of \<^verbatim>\<open>exportAddresses\<close>.\<close>

fun range_Items ::
  "(string, AddressesScopedList) gomap \<Rightarrow> (string, Address slice) gomap
     \<Rightarrow> (string, Address slice) gomap" where
  "range_Items [] m = m"
| "range_Items ((key, val) # rest) m =
     range_Items rest
       (if len (AddressesScopedList.Addresses val) > 0
        then AList.update key (AddressesScopedList.Addresses val) m
        else m)"

definition exportAddresses :: "api \<Rightarrow> globals \<Rightarrow> jsonData \<Rightarrow> world \<Rightarrow> jsonData run" where
  "exportAddresses a g exp w =
     (case service g of
        None \<Rightarrow> Return exp w
      | Some svc \<Rightarrow>
          (let exp' = exp\<lparr>jsonData.Addresses := Some []\<rparr>;
               w' = request (Call_Addresses_AggregatedList (Config.Project (config g))) w in
           case Addresses_AggregatedList a svc (Config.Project (config g)) of
             Inl err \<Rightarrow> log_Fatal err w'
           | Inr items \<Rightarrow>
               Return (exp'\<lparr>jsonData.Addresses :=
                          map_option (range_Items items) (jsonData.Addresses exp')\<rparr>) w'))"

definition exportFirewalls :: "api \<Rightarrow> globals \<Rightarrow> jsonData \<Rightarrow> world \<Rightarrow> jsonData run" where
  "exportFirewalls a g exp w =
     (case service g of
        None \<Rightarrow> Return exp w
      | Some svc \<Rightarrow>
          (let w' = request (Call_Firewalls_List (Config.Project (config g))) w in
           case Firewalls_List a svc (Config.Project (config g)) of
             Inl err \<Rightarrow> log_Fatal err w'
           | Inr items \<Rightarrow> Return (exp\<lparr>Firewalls := items\<rparr>) w'))"

definition exportRoutes :: "api \<Rightarrow> globals \<Rightarrow> jsonData \<Rightarrow> world \<Rightarrow> jsonData run" where
  "exportRoutes a g exp w =
     (case service g of
        None \<Rightarrow> Return exp w
      | Some svc \<Rightarrow>
          (let w' = request (Call_Routes_List (Config.Project (config g))) w in
           case Routes_List a svc (Config.Project (config g)) of
             Inl err \<Rightarrow> log_Fatal err w'
           | Inr items \<Rightarrow> Return (exp\<lparr>Routes := items\<rparr>) w'))"

section \<open>The exporter registry\<close>

text \<open>\<^verbatim>\<open>services.Export\<close>, as \<^verbatim>\<open>init\<close> fills it before it reads any flag.\<close>

type_synonym exporter = "api \<Rightarrow> globals \<Rightarrow> jsonData \<Rightarrow> world \<Rightarrow> jsonData run"

definition services_Export :: "string \<rightharpoonup> exporter" where
  "services_Export =
     (((Map.empty(''firewalls'' \<mapsto> exportFirewalls))
         (''routes'' \<mapsto> exportRoutes))
         (''networks'' \<mapsto> exportNetworks))
         (''addresses'' \<mapsto> exportAddresses)"

section \<open>Flag handling: \<^verbatim>\<open>init\<close> and \<^verbatim>\<open>showUsage\<close>\<close>

definition version :: string where
  "version = ''v0.1.0''"

definition newline :: char where
  "newline = CHR 0x0A"

definition usage_line :: string where
  "usage_line = ''  gcloud-backup [-import|-export] -account=<user_name> -project=<project_name> -services=<service_list> OPTIONS...''"

definition showUsage :: "string list \<Rightarrow> world \<Rightarrow> 'a run" where
  "showUsage s w =
     Exit 1 (w\<lparr>stderr := stderr w
       @ (case s of
            [] \<Rightarrow> []
          | m # _ \<Rightarrow> if length m > 0 then [Fprintf (''Error: '' @ m @ [newline, newline])] else [])
       @ [Fprintf (''Usage:'' @ [newline]),
          Fprintf (usage_line @ [newline, newline]),
          PrintDefaults]\<rparr>)"

text \<open>
  \<^verbatim>\<open>strings.Split(s, sep)\<close> for a separator of one byte, the only way the program calls
  it (\<^verbatim>\<open>sep\<close> is \<^verbatim>\<open>","\<close>): one more piece than there are separators in \<open>s\<close>.
\<close>

fun strings_Split :: "string \<Rightarrow> char \<Rightarrow> string list" where
  "strings_Split [] sep = [[]]"
| "strings_Split (c # cs) sep =
     (if c = sep then [] # strings_Split cs sep
      else (case strings_Split cs sep of
              [] \<Rightarrow> [[c]]
            | piece # pieces \<Rightarrow> (c # piece) # pieces))"

definition config0 :: Config where
  "config0 = \<lparr>Config.Service = [], Config.Account = [], Action_Import = False,
              Action_Export = False, Config.Project = [], Config.Region = []\<rparr>"

text \<open>
  \<^verbatim>\<open>init\<close>, from the parsed flags on; what \<^verbatim>\<open>flag.Parse\<close> does before is \<open>flag_parse\<close> below.
  Every \<^verbatim>\<open>showUsage\<close> ends the process, so the checks are read as a chain.
\<close>

definition init :: "Flags \<Rightarrow> world \<Rightarrow> globals run" where
  "init fl w =
     (if Version fl then
        Exit 1 (w\<lparr>stderr := stderr w @ [Fprintf (''Version: '' @ version @ [newline])]\<rparr>)
      else if Help fl then showUsage [] w
      else if Flags.Service fl = [] then showUsage [''please include a service''] w
      else let c1 = config0\<lparr>Config.Service := strings_Split (Flags.Service fl) (CHR '','')\<rparr> in
      if Flags.Account fl = [] then showUsage [''please specify a Google SDK user account''] w
      else let c2 = c1\<lparr>Config.Account := Flags.Account fl\<rparr> in
      if Flags.Project fl = [] then showUsage [''please specify a Google SDK project''] w
      else let c3 = c2\<lparr>Config.Project := Flags.Project fl\<rparr>;
               c4 = (if Flags.Region fl \<noteq> [] then c3\<lparr>Config.Region := Flags.Region fl\<rparr> else c3) in
      if Import fl \<or> Export fl then
        (if Import fl \<and> Export fl then showUsage [''please select an action - export/import''] w
         else if Export fl then
           Return \<lparr>flags = fl, config = c4\<lparr>Action_Export := True\<rparr>, service = None\<rparr> w
         else if Import fl then showUsage [''import action not implmented''] w
         else Return \<lparr>flags = fl, config = c4, service = None\<rparr> w)
      else showUsage [''please select an action - export/import''] w)"

section \<open>The command line: \<^verbatim>\<open>flag.Parse\<close>\<close>

text \<open>
  \<^verbatim>\<open>flag.Parse\<close> is the Go library's; it is modelled here from the library's documented
  behaviour, for the nine flags \<^verbatim>\<open>init\<close> defines: their defaults, the five boolean ones and
  the four that take a string.
\<close>

definition flags0 :: Flags where
  "flags0 = \<lparr>Version = False, Help = False, Import = False, Export = False, Readable = False,
             Flags.Service = [], Flags.Account = [], Flags.Project = [], Flags.Region = []\<rparr>"

definition bool_flag :: "string \<Rightarrow> bool" where
  "bool_flag name = (name \<in> set [''version'', ''help'', ''export'', ''import'', ''readable''])"

definition string_flag :: "string \<Rightarrow> bool" where
  "string_flag name = (name \<in> set [''service'', ''account'', ''project'', ''region''])"

definition set_bool :: "string \<Rightarrow> bool \<Rightarrow> Flags \<Rightarrow> Flags" where
  "set_bool name b fl =
     (if name = ''version'' then fl\<lparr>Version := b\<rparr>
      else if name = ''help'' then fl\<lparr>Help := b\<rparr>
      else if name = ''export'' then fl\<lparr>Export := b\<rparr>
      else if name = ''import'' then fl\<lparr>Import := b\<rparr>
      else if name = ''readable'' then fl\<lparr>Readable := b\<rparr>
      else fl)"

definition set_string :: "string \<Rightarrow> string \<Rightarrow> Flags \<Rightarrow> Flags" where
  "set_string name v fl =
     (if name = ''service'' then fl\<lparr>Flags.Service := v\<rparr>
      else if name = ''account'' then fl\<lparr>Flags.Account := v\<rparr>
      else if name = ''project'' then fl\<lparr>Flags.Project := v\<rparr>
      else if name = ''region'' then fl\<lparr>Flags.Region := v\<rparr>
      else fl)"

text \<open>\<^verbatim>\<open>strconv.ParseBool\<close>, by which a boolean flag reads the text after its \<^verbatim>\<open>=\<close>.\<close>

definition strconv_ParseBool :: "string \<Rightarrow> bool option" where
  "strconv_ParseBool v =
     (if v \<in> set [''1'', ''t'', ''T'', ''TRUE'', ''true'', ''True''] then Some True
      else if v \<in> set [''0'', ''f'', ''F'', ''FALSE'', ''false'', ''False''] then Some False
      else None)"

text \<open>A text up to its first \<^verbatim>\<open>=\<close>, and what follows that sign if there is one.\<close>

fun cut_equals :: "string \<Rightarrow> string \<times> string option" where
  "cut_equals [] = ([], None)"
| "cut_equals (c # cs) =
     (if c = CHR ''='' then ([], Some cs)
      else (case cut_equals cs of (n, v) \<Rightarrow> (c # n, v)))"

text \<open>
  How parsing ends: all flags read (at the end of the arguments, at the first argument
  that is no flag, or at \<^verbatim>\<open>--\<close>), an error, or \<^verbatim>\<open>flag.ErrHelp\<close> (an undefined \<^verbatim>\<open>-h\<close>).
\<close>

datatype parse_outcome = Parsed | Failed flag_error | HelpWanted

text \<open>
  \<^verbatim>\<open>FlagSet.Parse\<close> on the arguments after the program's name: one or two minus signs
  before a name; a name must not be empty nor start with \<^verbatim>\<open>-\<close> or \<^verbatim>\<open>=\<close>; a boolean flag is
  set to true, or to what stands after \<^verbatim>\<open>=\<close>; a string flag takes what stands after \<^verbatim>\<open>=\<close>,
  or else the next argument. The flags read before parsing stops stay set.
\<close>

fun flag_parse :: "Flags \<Rightarrow> string list \<Rightarrow> Flags \<times> parse_outcome" where
  "flag_parse fl [] = (fl, Parsed)"
| "flag_parse fl (s # args) =
     (if length s < 2 \<or> hd s \<noteq> CHR ''-'' then (fl, Parsed)
      else if s = ''--'' then (fl, Parsed)
      else
        (let name = (if s ! 1 = CHR ''-'' then drop 2 s else drop 1 s) in
         if name = [] \<or> hd name = CHR ''-'' \<or> hd name = CHR ''='' then (fl, Failed (BadSyntax s))
         else
           (case cut_equals (tl name) of
              (n, v) \<Rightarrow>
                (let name' = hd name # n in
                 if bool_flag name' then
                   (case v of
                      None \<Rightarrow> flag_parse (set_bool name' True fl) args
                    | Some x \<Rightarrow>
                        (case strconv_ParseBool x of
                           None \<Rightarrow> (fl, Failed (InvalidBoolean x name'))
                         | Some b \<Rightarrow> flag_parse (set_bool name' b fl) args))
                 else if string_flag name' then
                   (case v of
                      Some x \<Rightarrow> flag_parse (set_string name' x fl) args
                    | None \<Rightarrow>
                        (case args of
                           [] \<Rightarrow> (fl, Failed (NeedsArgument name'))
                         | x # args' \<Rightarrow> flag_parse (set_string name' x fl) args'))
                 else if name' = ''help'' \<or> name' = ''h'' then (fl, HelpWanted)
                 else (fl, Failed (NotDefined name'))))))"

text \<open>
  The default \<^verbatim>\<open>flag.Usage\<close>, which the program leaves in place: it is printed after the
  line of an error and for \<^verbatim>\<open>flag.ErrHelp\<close>. \<open>prog\<close> is \<^verbatim>\<open>os.Args[0]\<close>.
\<close>

definition flag_usage :: "string \<Rightarrow> written list" where
  "flag_usage prog = [Fprintf (''Usage of '' @ prog @ '':'' @ [newline]), PrintDefaults]"

section \<open>Client bootstrap\<close>

definition createServiceFromSDK :: "api \<Rightarrow> globals \<Rightarrow> world \<Rightarrow> globals run" where
  "createServiceFromSDK a g w =
     (let w1 = log_Printf ''Creating new client from Google SDK config'' w;
          w2 = request (Call_NewSDKConfig (Config.Account (config g))) w1 in
      case NewSDKConfig a (Config.Account (config g)) of
        Inl err \<Rightarrow> log_Fatal err w2
      | Inr sdk \<Rightarrow>
          (let w3 = request Call_compute_New w2 in
           case compute_New a sdk of
             Inl err \<Rightarrow> log_Fatal err w3
           | Inr svc \<Rightarrow> Return (g\<lparr>service := Some svc\<rparr>) w3))"

section \<open>The export coordinator\<close>

text \<open>The \<^verbatim>\<open>for _, svc := range config.Service\<close> loop of \<^verbatim>\<open>main\<close>.\<close>

fun export_loop :: "api \<Rightarrow> globals \<Rightarrow> string list \<Rightarrow> jsonData \<Rightarrow> world \<Rightarrow> jsonData run" where
  "export_loop a g [] exp w = Return exp w"
| "export_loop a g (svc # rest) exp w =
     (case services_Export svc of
        Some f \<Rightarrow>
          (case f a g exp w of
             Exit n w' \<Rightarrow> Exit n w'
           | Return exp' w' \<Rightarrow> export_loop a g rest exp' w')
      | None \<Rightarrow> export_loop a g rest exp (log_Printf (''Error: invalid service - '' @ svc) w))"

text \<open>\<^verbatim>\<open>new(jsonData)\<close>: every field nil.\<close>

definition new_jsonData :: jsonData where
  "new_jsonData = \<lparr>Firewalls = None, Routes = None, Networks = None, jsonData.Addresses = None\<rparr>"

section \<open>The serializer: \<^verbatim>\<open>encoding/json\<close>\<close>

text \<open>
  \<^verbatim>\<open>json.Marshal\<close> and \<^verbatim>\<open>json.MarshalIndent\<close> are the Go library's; they are modelled
  here from the library's documented behaviour, as far as the program uses it: struct
  fields in declaration order under their tag names, \<^verbatim>\<open>omitempty\<close>, map keys sorted,
  a nil slice or pointer as \<^verbatim>\<open>null\<close>, string escaping with HTML escaping on and with
  invalid UTF-8 replaced, and the layout of \<^verbatim>\<open>Indent\<close> with an empty prefix.
\<close>

subsection \<open>String and number literals\<close>

definition hex :: "nat \<Rightarrow> char" where
  "hex n = ''0123456789abcdef'' ! n"

text \<open>
  One byte below 0x80 of a string, as the encoder writes it (backspace and form feed as
  Go 1.22 and later write them; earlier releases use the six-character form for them
  too).
\<close>

definition escape_byte :: "char \<Rightarrow> string" where
  "escape_byte c =
     (if c = CHR 0x5C \<or> c = CHR 0x22 then [CHR 0x5C, c]
      else if c = CHR 0x08 then [CHR 0x5C, CHR ''b'']
      else if c = CHR 0x0C then [CHR 0x5C, CHR ''f'']
      else if c = CHR 0x0A then [CHR 0x5C, CHR ''n'']
      else if c = CHR 0x0D then [CHR 0x5C, CHR ''r'']
      else if c = CHR 0x09 then [CHR 0x5C, CHR ''t'']
      else if (of_char c :: nat) < 0x20 \<or> c = CHR ''<'' \<or> c = CHR ''>'' \<or> c = CHR ''&''
        then [CHR 0x5C, CHR ''u'', CHR ''0'', CHR ''0'',
              hex (of_char c div 16), hex (of_char c mod 16)]
      else [c])"

text \<open>
  \<^verbatim>\<open>utf8.DecodeRuneInString\<close>, as far as the encoder looks at it: the number of bytes of
  the UTF-8 sequence a string starts with, and 0 when it starts with none (Go answers
  \<^verbatim>\<open>RuneError\<close> with size 1 then). Overlong forms, surrogates and code points above
  U+10FFFF are no sequences.
\<close>

definition in_range :: "nat \<Rightarrow> nat \<Rightarrow> char \<Rightarrow> bool" where
  "in_range lo hi c = (lo \<le> of_char c \<and> (of_char c :: nat) \<le> hi)"

definition rune_len :: "string \<Rightarrow> nat" where
  "rune_len s =
     (case s of
        [] \<Rightarrow> 0
      | s0 # rest \<Rightarrow>
          (let b = (of_char s0 :: nat) in
           if b < 0x80 then 1
           else if b < 0xC2 then 0
           else if b < 0xE0 then
             (case rest of
                s1 # r1 \<Rightarrow> if in_range 0x80 0xBF s1 then 2 else 0
              | [] \<Rightarrow> 0)
           else if b < 0xF0 then
             (case rest of
                s1 # s2 # r2 \<Rightarrow>
                  if in_range (if b = 0xE0 then 0xA0 else 0x80) (if b = 0xED then 0x9F else 0xBF) s1
                     \<and> in_range 0x80 0xBF s2
                  then 3 else 0
              | _ \<Rightarrow> 0)
           else if b < 0xF5 then
             (case rest of
                s1 # s2 # s3 # r3 \<Rightarrow>
                  if in_range (if b = 0xF0 then 0x90 else 0x80) (if b = 0xF4 then 0x8F else 0xBF) s1
                     \<and> in_range 0x80 0xBF s2 \<and> in_range 0x80 0xBF s3
                  then 4 else 0
              | _ \<Rightarrow> 0)
           else 0))"

text \<open>
  The bytes of a string between its quotes: a byte below 0x80 as above; a byte that
  starts no UTF-8 sequence as the six characters \<^verbatim>\<open>\ufffd\<close>; U+2028 and U+2029 (the bytes
  E2 80 A8 and E2 80 A9) as \<^verbatim>\<open>\u2028\<close> and \<^verbatim>\<open>\u2029\<close>; every other sequence copied.
\<close>

fun escape :: "string \<Rightarrow> string" where
  "escape [] = []"
| "escape (b # bs) =
     (if (of_char b :: nat) < 0x80 then escape_byte b @ escape bs
      else if rune_len (b # bs) = 0 then
        [CHR 0x5C, CHR ''u'', CHR ''f'', CHR ''f'', CHR ''f'', CHR ''d''] @ escape bs
      else if b = CHR 0xE2 \<and> take 2 bs = [CHR 0x80, CHR 0xA8] then
        [CHR 0x5C, CHR ''u'', CHR ''2'', CHR ''0'', CHR ''2'', hex 8] @ escape (drop 2 bs)
      else if b = CHR 0xE2 \<and> take 2 bs = [CHR 0x80, CHR 0xA9] then
        [CHR 0x5C, CHR ''u'', CHR ''2'', CHR ''0'', CHR ''2'', hex 9] @ escape (drop 2 bs)
      else b # take (rune_len (b # bs) - 1) bs @ escape (drop (rune_len (b # bs) - 1) bs))"

definition quote :: "string \<Rightarrow> string" where
  "quote s = CHR 0x22 # escape s @ [CHR 0x22]"

text \<open>Decimal digits, most significant first (\<^verbatim>\<open>strconv.AppendInt\<close> in base 10).\<close>

definition digit :: "nat \<Rightarrow> char" where
  "digit d = char_of (of_char (CHR ''0'') + d)"

fun show_nat :: "nat \<Rightarrow> string" where
  "show_nat n = (if n < 10 then [] else show_nat (n div 10)) @ [digit (n mod 10)]"

definition show_int :: "int \<Rightarrow> string" where
  "show_int i = (if i < 0 then CHR ''-'' # show_nat (nat (- i)) else show_nat (nat i))"

subsection \<open>Compact and indented text of a document\<close>

fun compact :: "json \<Rightarrow> string"
  and compact_elems :: "json list \<Rightarrow> string"
  and compact_members :: "(string \<times> json) list \<Rightarrow> string" where
  "compact JNull = ''null''"
| "compact (JBool b) = (if b then ''true'' else ''false'')"
| "compact (JNum i) = show_int i"
| "compact (JStr s) = quote s"
| "compact (JArr xs) = ''['' @ compact_elems xs @ '']''"
| "compact (JObj ms) = ''{'' @ compact_members ms @ ''}''"
| "compact_elems [] = []"
| "compact_elems (x # xs) =
     compact x @ (if xs = [] then [] else '','' @ compact_elems xs)"
| "compact_members [] = []"
| "compact_members ((k, v) # ms) =
     quote k @ '':'' @ compact v @ (if ms = [] then [] else '','' @ compact_members ms)"

text \<open>A line break of \<^verbatim>\<open>Indent(dst, src, "", "  ")\<close> at nesting depth \<open>d\<close>.\<close>

definition break :: "nat \<Rightarrow> string" where
  "break d = newline # replicate (2 * d) (CHR '' '')"

fun indent :: "nat \<Rightarrow> json \<Rightarrow> string"
  and indent_elems :: "nat \<Rightarrow> json list \<Rightarrow> string"
  and indent_members :: "nat \<Rightarrow> (string \<times> json) list \<Rightarrow> string" where
  "indent d JNull = ''null''"
| "indent d (JBool b) = (if b then ''true'' else ''false'')"
| "indent d (JNum i) = show_int i"
| "indent d (JStr s) = quote s"
| "indent d (JArr xs) =
     (if xs = [] then ''[]''
      else ''['' @ break (Suc d) @ indent_elems (Suc d) xs @ break d @ '']'')"
| "indent d (JObj ms) =
     (if ms = [] then ''{}''
      else ''{'' @ break (Suc d) @ indent_members (Suc d) ms @ break d @ ''}'')"
| "indent_elems d [] = []"
| "indent_elems d (x # xs) =
     indent d x @ (if xs = [] then [] else '','' @ break d @ indent_elems d xs)"
| "indent_members d [] = []"
| "indent_members d ((k, v) # ms) =
     quote k @ '': '' @ indent d v
       @ (if ms = [] then [] else '','' @ break d @ indent_members d ms)"

subsection \<open>The document of a \<^verbatim>\<open>jsonData\<close>\<close>

text \<open>Go's \<^verbatim>\<open><\<close> on strings: byte-wise lexicographic.\<close>

fun string_less :: "string \<Rightarrow> string \<Rightarrow> bool" where
  "string_less s [] = False"
| "string_less [] (d # ds) = True"
| "string_less (c # cs) (d # ds) =
     ((of_char c :: nat) < of_char d \<or> (c = d \<and> string_less cs ds))"

fun insert_key :: "string \<times> 'v \<Rightarrow> (string \<times> 'v) list \<Rightarrow> (string \<times> 'v) list" where
  "insert_key p [] = [p]"
| "insert_key p (q # qs) =
     (if string_less (fst q) (fst p) then q # insert_key p qs else p # q # qs)"

definition sort_keys :: "(string \<times> 'v) list \<Rightarrow> (string \<times> 'v) list" where
  "sort_keys m = foldr insert_key m []"

definition encode_slice :: "json slice \<Rightarrow> json" where
  "encode_slice s = (case s of None \<Rightarrow> JNull | Some xs \<Rightarrow> JArr xs)"

definition encode_map :: "(string, json slice) gomap option \<Rightarrow> json" where
  "encode_map m =
     (case m of
        None \<Rightarrow> JNull
      | Some al \<Rightarrow> JObj (map (\<lambda>(k, v). (k, encode_slice v)) (sort_keys al)))"

text \<open>\<^verbatim>\<open>omitempty\<close>: a slice or map of length 0, nil or not, is left out with its key.\<close>

definition omitempty_slice :: "string \<Rightarrow> json slice \<Rightarrow> (string \<times> json) list" where
  "omitempty_slice name s = (if len s = 0 then [] else [(name, encode_slice s)])"

definition omitempty_map ::
  "string \<Rightarrow> (string, json slice) gomap option \<Rightarrow> (string \<times> json) list" where
  "omitempty_map name m =
     (if (case m of None \<Rightarrow> 0 | Some al \<Rightarrow> length al) = 0 then []
      else [(name, encode_map m)])"

text \<open>The fields of \<^verbatim>\<open>jsonData\<close> with their struct tags, in declaration order.\<close>

definition jsonData_doc :: "jsonData \<Rightarrow> json" where
  "jsonData_doc d =
     JObj (omitempty_slice ''firewalls'' (Firewalls d)
         @ omitempty_slice ''routes'' (Routes d)
         @ omitempty_slice ''networks'' (Networks d)
         @ omitempty_map ''addresses'' (jsonData.Addresses d))"

text \<open>
  \<^verbatim>\<open>json.Marshal(export)\<close> and \<^verbatim>\<open>json.MarshalIndent(export, "", "  ")\<close>: the bytes, or an
  error. Encoding fails in Go on values \<^verbatim>\<open>json\<close> cannot express or when a type's own
  marshaller fails; the documents of this model are all encodable, so the result is
  always \<open>Inr\<close>, and the \<^verbatim>\<open>log.Fatal\<close> branches after the two calls in \<^verbatim>\<open>main\<close> are kept but
  never taken.
\<close>

definition json_Marshal :: "jsonData \<Rightarrow> error + string" where
  "json_Marshal d = Inr (compact (jsonData_doc d))"

definition json_MarshalIndent :: "jsonData \<Rightarrow> error + string" where
  "json_MarshalIndent d = Inr (indent 0 (jsonData_doc d))"

section \<open>\<^verbatim>\<open>main\<close> and the whole process\<close>

text \<open>\<^verbatim>\<open>%v\<close> of a \<^verbatim>\<open>[]string\<close>: the elements between brackets, separated by spaces.\<close>

fun spaced :: "string list \<Rightarrow> string" where
  "spaced [] = []"
| "spaced [x] = x"
| "spaced (x # y # ys) = x @ '' '' @ spaced (y # ys)"

definition fmt_v :: "string list \<Rightarrow> string" where
  "fmt_v xs = ''['' @ spaced xs @ '']''"

definition main :: "api \<Rightarrow> globals \<Rightarrow> world \<Rightarrow> unit run" where
  "main a g w =
     (let w1 = log_Printf (''Google cloud backup - '' @ version) w in
      if Action_Export (config g) then
        (let w2 = log_Printf (''Starting export process of '' @ fmt_v (Config.Service (config g))) w1
         in case createServiceFromSDK a g w2 of
              Exit n w' \<Rightarrow> Exit n w'
            | Return g' w3 \<Rightarrow>
                (case export_loop a g' (Config.Service (config g')) new_jsonData w3 of
                   Exit n w' \<Rightarrow> Exit n w'
                 | Return exp w4 \<Rightarrow>
                     (if Readable (flags g') then
                        (case json_MarshalIndent exp of
                           Inl err \<Rightarrow> log_Fatal err w4
                         | Inr b \<Rightarrow> Return () (w4\<lparr>stdout := stdout w4 @ b\<rparr>))
                      else
                        (case json_Marshal exp of
                           Inl err \<Rightarrow> log_Fatal err w4
                         | Inr b \<Rightarrow> Return () (w4\<lparr>stdout := stdout w4 @ b\<rparr>)))))
      else if Action_Import (config g) then
        Return () (log_Printf (''Starting import process of '' @ fmt_v (Config.Service (config g))) w1)
      else Return () w1)"

definition world0 :: world where
  "world0 = \<lparr>stderr = [], stdout = [], calls = []\<rparr>"

text \<open>
  One run of the program on parsed flags: \<^verbatim>\<open>init\<close>, then \<^verbatim>\<open>main\<close>; the exit status
  is 0 when \<^verbatim>\<open>main\<close> returns.
\<close>

definition program :: "api \<Rightarrow> Flags \<Rightarrow> nat \<times> world" where
  "program a fl =
     (case init fl world0 of
        Exit n w \<Rightarrow> (n, w)
      | Return g w \<Rightarrow>
          (case main a g w of
             Exit n w' \<Rightarrow> (n, w')
           | Return u w' \<Rightarrow> (0, w')))"

text \<open>
  The process from its command line: the flag set of the package exits on error, with
  status 2 after an error and status 0 after \<^verbatim>\<open>flag.ErrHelp\<close> (releases before Go 1.15 exit
  with status 2 there too); \<^verbatim>\<open>init\<close> and \<^verbatim>\<open>main\<close> run on the flags of a command line that
  is read to its end.
\<close>

definition process :: "api \<Rightarrow> string \<Rightarrow> string list \<Rightarrow> nat \<times> world" where
  "process a prog args =
     (case flag_parse flags0 args of
        (fl, Parsed) \<Rightarrow> program a fl
      | (fl, Failed e) \<Rightarrow> (2, world0\<lparr>stderr := FlagError e # flag_usage prog\<rparr>)
      | (fl, HelpWanted) \<Rightarrow> (0, world0\<lparr>stderr := flag_usage prog\<rparr>))"

section \<open>Notions used to state the properties\<close>

text \<open>
  The error, if any, with which the list call behind a resource-kind name answers; a
  name outside the registry has no call.
\<close>

definition fetch_error :: "api \<Rightarrow> compute_Service \<Rightarrow> string \<Rightarrow> string \<Rightarrow> error option" where
  "fetch_error a svc p n =
     (if n = ''firewalls'' then (case Firewalls_List a svc p of Inl e \<Rightarrow> Some e | Inr x \<Rightarrow> None)
      else if n = ''routes'' then (case Routes_List a svc p of Inl e \<Rightarrow> Some e | Inr x \<Rightarrow> None)
      else if n = ''networks'' then (case Networks_List a svc p of Inl e \<Rightarrow> Some e | Inr x \<Rightarrow> None)
      else if n = ''addresses'' then
        (case Addresses_AggregatedList a svc p of Inl e \<Rightarrow> Some e | Inr x \<Rightarrow> None)
      else None)"

text \<open>
  The aggregate \<open>exp\<close> after the fields of the kinds named in \<open>S\<close> have been replaced by
  what their calls answer (for addresses, by the map \<^verbatim>\<open>exportAddresses\<close> builds).
\<close>

definition fetched ::
  "api \<Rightarrow> compute_Service \<Rightarrow> string \<Rightarrow> string set \<Rightarrow> jsonData \<Rightarrow> jsonData" where
  "fetched a svc p S exp =
     \<lparr>Firewalls = (if ''firewalls'' \<in> S
                   then (case Firewalls_List a svc p of Inl e \<Rightarrow> None | Inr items \<Rightarrow> items)
                   else Firewalls exp),
      Routes = (if ''routes'' \<in> S
                then (case Routes_List a svc p of Inl e \<Rightarrow> None | Inr items \<Rightarrow> items)
                else Routes exp),
      Networks = (if ''networks'' \<in> S
                  then (case Networks_List a svc p of Inl e \<Rightarrow> None | Inr items \<Rightarrow> items)
                  else Networks exp),
      jsonData.Addresses = (if ''addresses'' \<in> S
                   then (case Addresses_AggregatedList a svc p of
                           Inl e \<Rightarrow> None | Inr items \<Rightarrow> Some (range_Items items []))
                   else jsonData.Addresses exp)\<rparr>"

text \<open>The SDK call an exporter issues, and the warning for a name without exporter.\<close>

definition call_of :: "string \<Rightarrow> string \<Rightarrow> call option" where
  "call_of p n =
     (if n = ''firewalls'' then Some (Call_Firewalls_List p)
      else if n = ''routes'' then Some (Call_Routes_List p)
      else if n = ''networks'' then Some (Call_Networks_List p)
      else if n = ''addresses'' then Some (Call_Addresses_AggregatedList p)
      else None)"

definition warning :: "string \<Rightarrow> written" where
  "warning n = Log (''Error: invalid service - '' @ n)"

definition known :: "string \<Rightarrow> bool" where
  "known n = (n = ''firewalls'' \<or> n = ''routes'' \<or> n = ''networks'' \<or> n = ''addresses'')"

text \<open>The names asked for on the command line, and the client handle the bootstrap yields.\<close>

definition requested :: "Flags \<Rightarrow> string list" where
  "requested fl = strings_Split (Flags.Service fl) (CHR '','')"

definition client :: "api \<Rightarrow> Flags \<Rightarrow> compute_Service option" where
  "client a fl =
     (case NewSDKConfig a (Flags.Account fl) of
        Inl e \<Rightarrow> None
      | Inr sdk \<Rightarrow> (case compute_New a sdk of Inl e \<Rightarrow> None | Inr svc \<Rightarrow> Some svc))"

text \<open>
  The names of a list that stand before the first one whose list call fails, and that
  name (when there is one).
\<close>

definition before_failure :: "api \<Rightarrow> compute_Service \<Rightarrow> string \<Rightarrow> string list \<Rightarrow> string list" where
  "before_failure a svc p names = takeWhile (\<lambda>n. fetch_error a svc p n = None) names"

definition first_failure :: "api \<Rightarrow> compute_Service \<Rightarrow> string \<Rightarrow> string list \<Rightarrow> string" where
  "first_failure a svc p names = hd (dropWhile (\<lambda>n. fetch_error a svc p n = None) names)"

text \<open>What \<^verbatim>\<open>main\<close> serializes an aggregate to, for the two settings of \<^verbatim>\<open>-readable\<close>.\<close>

definition serialized :: "bool \<Rightarrow> jsonData \<Rightarrow> error + string" where
  "serialized readable d = (if readable then json_MarshalIndent d else json_Marshal d)"

text \<open>The three log lines of an export that reaches the loop.\<close>

definition banner :: "string list \<Rightarrow> written list" where
  "banner names =
     [Log (''Google cloud backup - '' @ version),
      Log (''Starting export process of '' @ fmt_v names),
      Log ''Creating new client from Google SDK config'']"

text \<open>
  The list call behind a name has succeeded without items: its \<^verbatim>\<open>Items\<close> are the nil
  slice. (The map \<^verbatim>\<open>exportAddresses\<close> makes is never nil.)
\<close>

definition fetched_nil :: "api \<Rightarrow> compute_Service \<Rightarrow> string \<Rightarrow> string \<Rightarrow> bool" where
  "fetched_nil a svc p n =
     (n = ''firewalls'' \<and> Firewalls_List a svc p = Inr None
      \<or> n = ''routes'' \<and> Routes_List a svc p = Inr None
      \<or> n = ''networks'' \<and> Networks_List a svc p = Inr None)"

text \<open>The names of the fields of an aggregate that are not nil.\<close>

definition populated :: "jsonData \<Rightarrow> string list" where
  "populated d =
     (if Firewalls d \<noteq> None then [''firewalls''] else [])
     @ (if Routes d \<noteq> None then [''routes''] else [])
     @ (if Networks d \<noteq> None then [''networks''] else [])
     @ (if jsonData.Addresses d \<noteq> None then [''addresses''] else [])"

text \<open>The keys of the top-level object of a document.\<close>

definition doc_keys :: "json \<Rightarrow> string list" where
  "doc_keys j = (case j of JObj ms \<Rightarrow> map fst ms | _ \<Rightarrow> [])"

text \<open>What \<^verbatim>\<open>showUsage\<close> prints last, whatever its argument.\<close>

definition usage_text :: "written list" where
  "usage_text =
     [Fprintf (''Usage:'' @ [newline]), Fprintf (usage_line @ [newline, newline]), PrintDefaults]"

definition usage_printed :: "world \<Rightarrow> bool" where
  "usage_printed w = (drop (length (stderr w) - length usage_text) (stderr w) = usage_text)"

section \<open>Reading the output back\<close>

text \<open>
  A reader for JSON text, used to say when two outputs are the same document. It reads
  what the serializer can write: objects, arrays, strings with their escapes, integers,
  \<^verbatim>\<open>true\<close>, \<^verbatim>\<open>false\<close> and \<^verbatim>\<open>null\<close>, with any white space between the tokens. It is
  lenient where that is harmless (leading zeros) and gives up where the serializer never
  goes: a \<^verbatim>\<open>u\<close> escape (four hex digits) is decoded to the UTF-8 bytes of its code point
  and is not read when it is half of a surrogate pair, a number is an optional minus
  sign and digits.
\<close>

definition is_space :: "char \<Rightarrow> bool" where
  "is_space c = (c = CHR '' '' \<or> c = CHR 0x09 \<or> c = CHR 0x0A \<or> c = CHR 0x0D)"

fun skip_space :: "string \<Rightarrow> string" where
  "skip_space [] = []"
| "skip_space (c # cs) = (if is_space c then skip_space cs else c # cs)"

text \<open>A run of decimal digits, most significant first, added to \<open>acc\<close>.\<close>

definition is_digit :: "char \<Rightarrow> bool" where
  "is_digit c = (48 \<le> (of_char c :: nat) \<and> (of_char c :: nat) \<le> 57)"

fun read_nat :: "nat \<Rightarrow> string \<Rightarrow> nat \<times> string" where
  "read_nat acc [] = (acc, [])"
| "read_nat acc (c # cs) =
     (if is_digit c then read_nat (10 * acc + (of_char c - 48)) cs else (acc, c # cs))"

definition read_number :: "string \<Rightarrow> (int \<times> string) option" where
  "read_number cs =
     (case cs of
        [] \<Rightarrow> None
      | c # rest \<Rightarrow>
          if c = CHR ''-'' then
            (case rest of
               [] \<Rightarrow> None
             | d # ds \<Rightarrow>
                 if is_digit d then (case read_nat 0 rest of (n, r) \<Rightarrow> Some (- int n, r))
                 else None)
          else if is_digit c then (case read_nat 0 cs of (n, r) \<Rightarrow> Some (int n, r))
          else None)"

text \<open>The characters of a string literal after its opening quote, decoded, and the text after its closing quote.\<close>

definition unhex :: "char \<Rightarrow> nat option" where
  "unhex c =
     (if is_digit c then Some (of_char c - 48)
      else if 97 \<le> (of_char c :: nat) \<and> (of_char c :: nat) \<le> 102 then Some (of_char c - 87)
      else if 65 \<le> (of_char c :: nat) \<and> (of_char c :: nat) \<le> 70 then Some (of_char c - 55)
      else None)"

definition unescape :: "char \<Rightarrow> char option" where
  "unescape e =
     (if e = CHR 0x22 \<or> e = CHR 0x5C \<or> e = CHR ''/'' then Some e
      else if e = CHR ''b'' then Some (CHR 0x08)
      else if e = CHR ''f'' then Some (CHR 0x0C)
      else if e = CHR ''n'' then Some (CHR 0x0A)
      else if e = CHR ''r'' then Some (CHR 0x0D)
      else if e = CHR ''t'' then Some (CHR 0x09)
      else None)"

text \<open>The UTF-8 bytes of a code point of the basic plane; a surrogate has none.\<close>

definition utf8_encode :: "nat \<Rightarrow> string option" where
  "utf8_encode cp =
     (if cp < 0x80 then Some [char_of cp]
      else if cp < 0x800 then Some [char_of (0xC0 + cp div 64), char_of (0x80 + cp mod 64)]
      else if 0xD800 \<le> cp \<and> cp < 0xE000 then None
      else Some [char_of (0xE0 + cp div 4096), char_of (0x80 + cp div 64 mod 64),
                 char_of (0x80 + cp mod 64)])"

fun read_string :: "string \<Rightarrow> (string \<times> string) option" where
  "read_string [] = None"
| "read_string (c # cs) =
     (if c = CHR 0x22 then Some ([], cs)
      else if c = CHR 0x5C then
        (case cs of
           [] \<Rightarrow> None
         | e # cs1 \<Rightarrow>
             if e = CHR ''u'' then
               (case cs1 of
                  h1 # h2 # h3 # h4 # cs2 \<Rightarrow>
                    (case (unhex h1, unhex h2, unhex h3, unhex h4) of
                       (Some a, Some b, Some c', Some d) \<Rightarrow>
                         (case utf8_encode (((a * 16 + b) * 16 + c') * 16 + d) of
                            None \<Rightarrow> None
                          | Some bytes \<Rightarrow>
                              (case read_string cs2 of
                                 None \<Rightarrow> None
                               | Some (s, r) \<Rightarrow> Some (bytes @ s, r)))
                     | _ \<Rightarrow> None)
                | _ \<Rightarrow> None)
             else
               (case unescape e of
                  None \<Rightarrow> None
                | Some ch \<Rightarrow>
                    (case read_string cs1 of
                       None \<Rightarrow> None
                     | Some (s, r) \<Rightarrow> Some (ch # s, r))))
      else (case read_string cs of None \<Rightarrow> None | Some (s, r) \<Rightarrow> Some (c # s, r)))"


text \<open>A text after which a number can end: it does not go on with a digit.\<close>

definition delimited :: "string \<Rightarrow> bool" where
  "delimited rest = (case rest of [] \<Rightarrow> True | c # cs \<Rightarrow> \<not> is_digit c)"

text \<open>
  Values, the elements of an array after its opening bracket, and the members of an
  object after its opening brace. The first argument is fuel: every call uses one unit.
\<close>

fun parse_value :: "nat \<Rightarrow> string \<Rightarrow> (json \<times> string) option"
  and parse_elems :: "nat \<Rightarrow> string \<Rightarrow> (json list \<times> string) option"
  and parse_members :: "nat \<Rightarrow> string \<Rightarrow> ((string \<times> json) list \<times> string) option" where
  "parse_value 0 cs = None"
| "parse_value (Suc n) cs =
     (case skip_space cs of
        [] \<Rightarrow> None
      | c # rest \<Rightarrow>
          if c = CHR ''{'' then
            (case skip_space rest of
               [] \<Rightarrow> None
             | c' # rest' \<Rightarrow>
                 if c' = CHR ''}'' then Some (JObj [], rest')
                 else (case parse_members n rest of
                         None \<Rightarrow> None
                       | Some (ms, r) \<Rightarrow> Some (JObj ms, r)))
          else if c = CHR ''['' then
            (case skip_space rest of
               [] \<Rightarrow> None
             | c' # rest' \<Rightarrow>
                 if c' = CHR '']'' then Some (JArr [], rest')
                 else (case parse_elems n rest of
                         None \<Rightarrow> None
                       | Some (xs, r) \<Rightarrow> Some (JArr xs, r)))
          else if c = CHR 0x22 then
            (case read_string rest of None \<Rightarrow> None | Some (s, r) \<Rightarrow> Some (JStr s, r))
          else if c = CHR ''n'' then
            (if take 3 rest = ''ull'' then Some (JNull, drop 3 rest) else None)
          else if c = CHR ''t'' then
            (if take 3 rest = ''rue'' then Some (JBool True, drop 3 rest) else None)
          else if c = CHR ''f'' then
            (if take 4 rest = ''alse'' then Some (JBool False, drop 4 rest) else None)
          else (case read_number (c # rest) of
                  None \<Rightarrow> None
                | Some (i, r) \<Rightarrow> Some (JNum i, r)))"
| "parse_elems 0 cs = None"
| "parse_elems (Suc n) cs =
     (case parse_value n cs of
        None \<Rightarrow> None
      | Some (v, r) \<Rightarrow>
          (case skip_space r of
             [] \<Rightarrow> None
           | c # r' \<Rightarrow>
               if c = CHR '']'' then Some ([v], r')
               else if c = CHR '','' then
                 (case parse_elems n r' of
                    None \<Rightarrow> None
                  | Some (vs, r'') \<Rightarrow> Some (v # vs, r''))
               else None))"
| "parse_members 0 cs = None"
| "parse_members (Suc n) cs =
     (case skip_space cs of
        [] \<Rightarrow> None
      | c # r \<Rightarrow>
          if c = CHR 0x22 then
            (case read_string r of
               None \<Rightarrow> None
             | Some (k, r1) \<Rightarrow>
                 (case skip_space r1 of
                    [] \<Rightarrow> None
                  | c1 # r2 \<Rightarrow>
                      if c1 = CHR '':'' then
                        (case parse_value n r2 of
                           None \<Rightarrow> None
                         | Some (v, r3) \<Rightarrow>
                             (case skip_space r3 of
                                [] \<Rightarrow> None
                              | c3 # r4 \<Rightarrow>
                                  if c3 = CHR ''}'' then Some ([(k, v)], r4)
                                  else if c3 = CHR '','' then
                                    (case parse_members n r4 of
                                       None \<Rightarrow> None
                                     | Some (ms, r5) \<Rightarrow> Some ((k, v) # ms, r5))
                                  else None))
                      else None))
          else None)"

text \<open>
  A whole text: one value, then white space only. The length of the text is fuel enough
  (\<open>weight_le_length\<close> below), so that \<open>None\<close> always means a text that is not read, never
  a lack of fuel on a text the serializer wrote.
\<close>

definition json_parse :: "string \<Rightarrow> json option" where
  "json_parse cs =
     (case parse_value (length cs) cs of
        None \<Rightarrow> None
      | Some (v, r) \<Rightarrow> if skip_space r = [] then Some v else None)"

text \<open>
  What a reader finds where the encoder was given a string: the string \<^emph>\<open>coerced to valid
  UTF-8\<close>, every byte that starts no UTF-8 sequence replaced by U+FFFD (the bytes
  EF BF BD) and every other byte kept. \<open>coerced\<close> does this to every string and key of a
  document.
\<close>

fun coerce_utf8 :: "string \<Rightarrow> string" where
  "coerce_utf8 [] = []"
| "coerce_utf8 (b # bs) =
     (if (of_char b :: nat) < 0x80 then b # coerce_utf8 bs
      else if rune_len (b # bs) = 0 then [CHR 0xEF, CHR 0xBF, CHR 0xBD] @ coerce_utf8 bs
      else b # take (rune_len (b # bs) - 1) bs @ coerce_utf8 (drop (rune_len (b # bs) - 1) bs))"

fun coerced :: "json \<Rightarrow> json"
  and coerced_elems :: "json list \<Rightarrow> json list"
  and coerced_members :: "(string \<times> json) list \<Rightarrow> (string \<times> json) list" where
  "coerced JNull = JNull"
| "coerced (JBool b) = JBool b"
| "coerced (JNum i) = JNum i"
| "coerced (JStr s) = JStr (coerce_utf8 s)"
| "coerced (JArr xs) = JArr (coerced_elems xs)"
| "coerced (JObj ms) = JObj (coerced_members ms)"
| "coerced_elems [] = []"
| "coerced_elems (x # xs) = coerced x # coerced_elems xs"
| "coerced_members [] = []"
| "coerced_members ((k, v) # ms) = (coerce_utf8 k, coerced v) # coerced_members ms"

text \<open>
  Both layouts of the serializer are instances of one: \<open>br d\<close> is written where
  \<^verbatim>\<open>Indent\<close> breaks the line at depth \<open>d\<close>, \<open>sp\<close> after a colon. \<open>weight\<close> is the fuel a
  document needs.
\<close>

fun layout :: "(nat \<Rightarrow> string) \<Rightarrow> string \<Rightarrow> nat \<Rightarrow> json \<Rightarrow> string"
  and layout_elems :: "(nat \<Rightarrow> string) \<Rightarrow> string \<Rightarrow> nat \<Rightarrow> json list \<Rightarrow> string"
  and layout_members :: "(nat \<Rightarrow> string) \<Rightarrow> string \<Rightarrow> nat \<Rightarrow> (string \<times> json) list \<Rightarrow> string" where
  "layout br sp d JNull = ''null''"
| "layout br sp d (JBool b) = (if b then ''true'' else ''false'')"
| "layout br sp d (JNum i) = show_int i"
| "layout br sp d (JStr s) = quote s"
| "layout br sp d (JArr xs) =
     (if xs = [] then ''[]''
      else ''['' @ br (Suc d) @ layout_elems br sp (Suc d) xs @ br d @ '']'')"
| "layout br sp d (JObj ms) =
     (if ms = [] then ''{}''
      else ''{'' @ br (Suc d) @ layout_members br sp (Suc d) ms @ br d @ ''}'')"
| "layout_elems br sp d [] = []"
| "layout_elems br sp d (x # xs) =
     layout br sp d x @ (if xs = [] then [] else '','' @ br d @ layout_elems br sp d xs)"
| "layout_members br sp d [] = []"
| "layout_members br sp d ((k, v) # ms) =
     quote k @ '':'' @ sp @ layout br sp d v
       @ (if ms = [] then [] else '','' @ br d @ layout_members br sp d ms)"

fun weight :: "json \<Rightarrow> nat"
  and weight_elems :: "json list \<Rightarrow> nat"
  and weight_members :: "(string \<times> json) list \<Rightarrow> nat" where
  "weight JNull = 1"
| "weight (JBool b) = 1"
| "weight (JNum i) = 1"
| "weight (JStr s) = 1"
| "weight (JArr xs) = Suc (weight_elems xs)"
| "weight (JObj ms) = Suc (weight_members ms)"
| "weight_elems [] = 0"
| "weight_elems (x # xs) = Suc (weight x + weight_elems xs)"
| "weight_members [] = 0"
| "weight_members ((k, v) # ms) = Suc (weight v + weight_members ms)"

text \<open>White space only; the first character of the text of a value.\<close>

definition spaces :: "string \<Rightarrow> bool" where
  "spaces ws = list_all is_space ws"

definition value_start :: "char \<Rightarrow> bool" where
  "value_start c = (\<not> is_space c \<and> c \<noteq> CHR '']'' \<and> c \<noteq> CHR ''}'')"

text \<open>A line break followed by two spaces occurs in the text.\<close>

fun indented :: "string \<Rightarrow> bool" where
  "indented (a # b # c # cs) =
     ((a = newline \<and> b = CHR '' '' \<and> c = CHR '' '') \<or> indented (b # c # cs))"
| "indented cs = False"

text \<open>
  The number of spaces each line after the first starts with, and the nesting depth at
  which each line after the first of the readable text of a document stands: one deeper
  than the array or object for its elements or members, the depth of the array or object
  itself for its closing bracket.
\<close>

fun widths :: "string \<Rightarrow> nat list" where
  "widths [] = []"
| "widths (c # cs) =
     (if c = newline then length (takeWhile (\<lambda>x. x = CHR '' '') cs) # widths cs
      else widths cs)"

fun depths :: "nat \<Rightarrow> json \<Rightarrow> nat list"
  and depths_elems :: "nat \<Rightarrow> json list \<Rightarrow> nat list"
  and depths_members :: "nat \<Rightarrow> (string \<times> json) list \<Rightarrow> nat list" where
  "depths d JNull = []"
| "depths d (JBool b) = []"
| "depths d (JNum i) = []"
| "depths d (JStr s) = []"
| "depths d (JArr xs) = (if xs = [] then [] else Suc d # depths_elems (Suc d) xs @ [d])"
| "depths d (JObj ms) = (if ms = [] then [] else Suc d # depths_members (Suc d) ms @ [d])"
| "depths_elems d [] = []"
| "depths_elems d (x # xs) = depths d x @ (if xs = [] then [] else d # depths_elems d xs)"
| "depths_members d [] = []"
| "depths_members d ((k, v) # ms) =
     depths d v @ (if ms = [] then [] else d # depths_members d ms)"

section \<open>Sample inputs\<close>

text \<open>
  A project with one firewall, no route (the list call answers without items), one
  network, and two address scopes of which one is empty; every call succeeds.
\<close>

definition sample_items :: "(string, AddressesScopedList) gomap" where
  "sample_items =
     [(''zones/a'', \<lparr>AddressesScopedList.Addresses = Some [], Warning = Some (JStr ''no results'')\<rparr>),
      (''regions/b'', \<lparr>AddressesScopedList.Addresses =
          Some [JObj [(''name'', JStr ''ip-1'')], JObj [(''name'', JStr ''ip-2'')]],
          Warning = None\<rparr>)]"

definition sample_api :: api where
  "sample_api =
     \<lparr>NewSDKConfig = (\<lambda>account. Inr (SDKConfig account)),
      compute_New = (\<lambda>sdk. Inr (ComputeService ''client'')),
      Firewalls_List = (\<lambda>svc p. Inr (Some [JObj [(''name'', JStr ''allow-ssh''), (''priority'', JNum 1000)]])),
      Routes_List = (\<lambda>svc p. Inr None),
      Networks_List = (\<lambda>svc p. Inr (Some [JObj [(''name'', JStr ''default'')]])),
      Addresses_AggregatedList = (\<lambda>svc p. Inr sample_items)\<rparr>"

text \<open>The same project when listing the networks fails.\<close>

definition failing_api :: api where
  "failing_api = sample_api\<lparr>Networks_List := (\<lambda>svc p. Inl ''googleapi: Error 403: Forbidden'')\<rparr>"

text \<open>A project all of whose address scopes are empty.\<close>

definition empty_scopes_api :: api where
  "empty_scopes_api =
     sample_api\<lparr>Addresses_AggregatedList := (\<lambda>svc p.
        Inr [(''zones/a'', \<lparr>AddressesScopedList.Addresses = Some [], Warning = None\<rparr>),
             (''regions/b'', \<lparr>AddressesScopedList.Addresses = None, Warning = None\<rparr>)])\<rparr>"

text \<open>\<^verbatim>\<open>gcloud-backup -export -service=firewalls -account=me -project=demo\<close>\<close>

definition sample_flags :: Flags where
  "sample_flags =
     \<lparr>Version = False, Help = False, Import = False, Export = True, Readable = False,
      Flags.Service = ''firewalls'', Flags.Account = ''me'', Flags.Project = ''demo'',
      Flags.Region = []\<rparr>"

text \<open>The globals once \<^verbatim>\<open>init\<close> and \<^verbatim>\<open>createServiceFromSDK\<close> have run on these flags.\<close>

definition sample_globals :: globals where
  "sample_globals =
     \<lparr>flags = sample_flags,
      config = \<lparr>Config.Service = [''firewalls''], Config.Account = ''me'', Action_Import = False,
                Action_Export = True, Config.Project = ''demo'', Config.Region = []\<rparr>,
      service = Some (ComputeService ''client'')\<rparr>"

text \<open>\<^verbatim>\<open>gcloud-backup -export -import -service=firewalls -account=me -project=demo\<close>\<close>

definition both_actions_flags :: Flags where
  "both_actions_flags = sample_flags\<lparr>Import := True\<rparr>"

text \<open>The same with \<^verbatim>\<open>-version\<close> added.\<close>

definition version_flags :: Flags where
  "version_flags = both_actions_flags\<lparr>Version := True\<rparr>"

text \<open>Command lines that set both actions: the two above, and two that are not read to their end.\<close>

definition both_actions_args :: "string list" where
  "both_actions_args =
     [''-export'', ''-import'', ''-service=firewalls'', ''-account'', ''me'', ''--project=demo'']"

definition version_args :: "string list" where
  "version_args = both_actions_args @ [''-version'']"

definition undefined_flag_args :: "string list" where
  "undefined_flag_args = [''-import'', ''-export=true'', ''-bogus'', ''-service=firewalls'']"

definition help_args :: "string list" where
  "help_args = [''-import'', ''-export'', ''-h'']"

text \<open>\<^verbatim>\<open>-service=firewalls,bogus,addresses\<close>: a name without exporter between two with.\<close>

definition mixed_flags :: Flags where
  "mixed_flags = sample_flags\<lparr>Flags.Service := ''firewalls,bogus,addresses''\<rparr>"

text \<open>\<^verbatim>\<open>-service=firewalls,networks\<close>, for the project whose networks cannot be listed.\<close>

definition failing_flags :: Flags where
  "failing_flags = sample_flags\<lparr>Flags.Service := ''firewalls,networks''\<rparr>"

text \<open>
  \<^verbatim>\<open>-service=bogus,firewalls,networks,routes,mystery\<close>, for the same project: names with and
  without exporter on both sides of the one whose call fails.
\<close>

definition aborting_flags :: Flags where
  "aborting_flags = sample_flags\<lparr>Flags.Service := ''bogus,firewalls,networks,routes,mystery''\<rparr>"

text \<open>\<^verbatim>\<open>-service=routes -readable\<close>: the only kind asked for has no items.\<close>

definition routes_flags :: Flags where
  "routes_flags = sample_flags\<lparr>Flags.Service := ''routes'', Readable := True\<rparr>"

section \<open>The loop of the addresses exporter\<close>

lemma range_Items_lookup:
  "distinct (map fst items) \<Longrightarrow>
   map_of (range_Items items m) k =
     (case map_of items k of
        None \<Rightarrow> map_of m k
      | Some v \<Rightarrow> if len (AddressesScopedList.Addresses v) > 0
                  then Some (AddressesScopedList.Addresses v) else map_of m k)"
proof (induction items arbitrary: m)
  case Nil
  then show ?case by simp
next
  case (Cons p rest)
  obtain key val where p: "p = (key, val)" by (cases p)
  from Cons.prems p have d: "distinct (map fst rest)" and nk: "key \<notin> fst ` set rest"
    by auto
  from nk have none: "map_of rest key = None"
    by (simp add: map_of_eq_None_iff)
  have IH: "map_of (range_Items rest m') k =
     (case map_of rest k of
        None \<Rightarrow> map_of m' k
      | Some v \<Rightarrow> if len (AddressesScopedList.Addresses v) > 0
                  then Some (AddressesScopedList.Addresses v) else map_of m' k)" for m'
    using Cons.IH [OF d] .
  show ?case
  proof (cases "k = key")
    case True
    with p none IH show ?thesis
      by (simp add: AList.update_conv' split: option.splits)
  next
    case False
    with p IH show ?thesis
      by (simp add: AList.update_conv' split: option.splits)
  qed
qed

lemma range_Items_distinct:
  "distinct (map fst m) \<Longrightarrow> distinct (map fst (range_Items items m))"
  by (induction items m rule: range_Items.induct) (simp_all add: AList.distinct_update)

text \<open>
  The map a \<^verbatim>\<open>range\<close> over the response builds does not depend on the order in which Go
  visits the entries.
\<close>

lemma exportAddresses_order:
  assumes "distinct (map fst items)" and "distinct (map fst items')" and "set items' = set items"
  shows "map_of (range_Items items' []) = map_of (range_Items items [])"
proof -
  from assms have "map_of items' = map_of items"
    by (simp add: map_of_inject_set)
  then show ?thesis
    by (simp add: fun_eq_iff range_Items_lookup assms(1,2))
qed

section \<open>The coordinator loop\<close>

lemma services_Export_None: "services_Export n = None \<longleftrightarrow> \<not> known n"
  by (simp add: services_Export_def known_def)

lemma services_Export_Some:
  "services_Export n = Some f \<longleftrightarrow>
     (n = ''firewalls'' \<and> f = exportFirewalls) \<or> (n = ''routes'' \<and> f = exportRoutes) \<or>
     (n = ''networks'' \<and> f = exportNetworks) \<or> (n = ''addresses'' \<and> f = exportAddresses)"
  by (auto simp add: services_Export_def)

lemma export_loop_unknown:
  "\<not> known n \<Longrightarrow>
   export_loop a g (n # rest) exp w =
     export_loop a g rest exp (log_Printf (''Error: invalid service - '' @ n) w)"
  by (simp add: services_Export_None [symmetric])

lemma export_loop_firewalls:
  "service g = Some svc \<Longrightarrow>
   export_loop a g (''firewalls'' # rest) exp w =
     (case Firewalls_List a svc (Config.Project (config g)) of
        Inl e \<Rightarrow> Exit 1 (log_Printf e (request (Call_Firewalls_List (Config.Project (config g))) w))
      | Inr items \<Rightarrow> export_loop a g rest (exp\<lparr>Firewalls := items\<rparr>)
                       (request (Call_Firewalls_List (Config.Project (config g))) w))"
  by (simp add: services_Export_def exportFirewalls_def log_Fatal_def split: sum.splits)

lemma export_loop_routes:
  "service g = Some svc \<Longrightarrow>
   export_loop a g (''routes'' # rest) exp w =
     (case Routes_List a svc (Config.Project (config g)) of
        Inl e \<Rightarrow> Exit 1 (log_Printf e (request (Call_Routes_List (Config.Project (config g))) w))
      | Inr items \<Rightarrow> export_loop a g rest (exp\<lparr>Routes := items\<rparr>)
                       (request (Call_Routes_List (Config.Project (config g))) w))"
  by (simp add: services_Export_def exportRoutes_def log_Fatal_def split: sum.splits)

lemma export_loop_networks:
  "service g = Some svc \<Longrightarrow>
   export_loop a g (''networks'' # rest) exp w =
     (case Networks_List a svc (Config.Project (config g)) of
        Inl e \<Rightarrow> Exit 1 (log_Printf e (request (Call_Networks_List (Config.Project (config g))) w))
      | Inr items \<Rightarrow> export_loop a g rest (exp\<lparr>Networks := items\<rparr>)
                       (request (Call_Networks_List (Config.Project (config g))) w))"
  by (simp add: services_Export_def exportNetworks_def log_Fatal_def split: sum.splits)

lemma export_loop_addresses:
  "service g = Some svc \<Longrightarrow>
   export_loop a g (''addresses'' # rest) exp w =
     (case Addresses_AggregatedList a svc (Config.Project (config g)) of
        Inl e \<Rightarrow> Exit 1 (log_Printf e
                  (request (Call_Addresses_AggregatedList (Config.Project (config g))) w))
      | Inr items \<Rightarrow> export_loop a g rest (exp\<lparr>jsonData.Addresses := Some (range_Items items [])\<rparr>)
                       (request (Call_Addresses_AggregatedList (Config.Project (config g))) w))"
  by (simp add: services_Export_def exportAddresses_def log_Fatal_def split: sum.splits)

lemma export_loop_ok:
  assumes "service g = Some svc"
    and "\<forall>n\<in>set names. fetch_error a svc (Config.Project (config g)) n = None"
  shows "export_loop a g names exp w =
           Return (fetched a svc (Config.Project (config g)) (set names) exp)
             (w\<lparr>stderr := stderr w @ map warning (filter (\<lambda>n. \<not> known n) names),
                calls := calls w @ List.map_filter (call_of (Config.Project (config g))) names\<rparr>)"
  using assms(2)
proof (induction names arbitrary: exp w)
  case Nil
  show ?case by (simp add: fetched_def List.map_filter_simps)
next
  case (Cons n rest)
  from Cons.prems have ok: "fetch_error a svc (Config.Project (config g)) n = None"
    and rest: "\<forall>n\<in>set rest. fetch_error a svc (Config.Project (config g)) n = None"
    by simp_all
  note IH = Cons.IH [OF rest]
  consider "n = ''firewalls''" | "n = ''routes''" | "n = ''networks''" | "n = ''addresses''"
    | "\<not> known n"
    by (auto simp: known_def)
  then show ?case
  proof cases
    case 1
    with ok obtain items where "Firewalls_List a svc (Config.Project (config g)) = Inr items"
      by (auto simp: fetch_error_def split: sum.splits)
    with 1 show ?thesis
      by (simp add: export_loop_firewalls [OF assms(1)] IH fetched_def request_def
          List.map_filter_simps call_of_def known_def del: export_loop.simps)
  next
    case 2
    with ok obtain items where "Routes_List a svc (Config.Project (config g)) = Inr items"
      by (auto simp: fetch_error_def split: sum.splits)
    with 2 show ?thesis
      by (simp add: export_loop_routes [OF assms(1)] IH fetched_def request_def
          List.map_filter_simps call_of_def known_def del: export_loop.simps)
  next
    case 3
    with ok obtain items where "Networks_List a svc (Config.Project (config g)) = Inr items"
      by (auto simp: fetch_error_def split: sum.splits)
    with 3 show ?thesis
      by (simp add: export_loop_networks [OF assms(1)] IH fetched_def request_def
          List.map_filter_simps call_of_def known_def del: export_loop.simps)
  next
    case 4
    with ok obtain items where "Addresses_AggregatedList a svc (Config.Project (config g)) = Inr items"
      by (auto simp: fetch_error_def split: sum.splits)
    with 4 show ?thesis
      by (simp add: export_loop_addresses [OF assms(1)] IH fetched_def request_def
          List.map_filter_simps call_of_def known_def del: export_loop.simps)
  next
    case 5
    then show ?thesis
      by (auto simp add: export_loop_unknown IH log_Printf_def warning_def fetched_def
          List.map_filter_simps call_of_def known_def simp del: export_loop.simps)
  qed
qed

lemma stdout_log_Printf: "stdout (log_Printf m w) = stdout w"
  by (simp add: log_Printf_def)

lemma stdout_request: "stdout (request c w) = stdout w"
  by (simp add: request_def)

lemma calls_log_Printf: "calls (log_Printf m w) = calls w"
  by (simp add: log_Printf_def)

lemma fetch_error_known: "fetch_error a svc p n = Some e \<Longrightarrow> known n"
  by (auto simp: fetch_error_def known_def split: if_splits)

lemma export_loop_fail:
  assumes "service g = Some svc"
    and "n \<in> set names"
    and "fetch_error a svc (Config.Project (config g)) n = Some e"
  shows "\<exists>w'. export_loop a g names exp w = Exit 1 w' \<and> stdout w' = stdout w"
  using assms(2)
proof (induction names arbitrary: exp w)
  case Nil
  then show ?case by simp
next
  case (Cons h rest)
  have IH: "\<exists>w'. export_loop a g rest exp' w1 = Exit 1 w' \<and> stdout w' = stdout w1"
    if "n \<in> set rest" for exp' w1
    using Cons.IH [OF that] .
  consider "h = ''firewalls''" | "h = ''routes''" | "h = ''networks''" | "h = ''addresses''"
    | "\<not> known h"
    by (auto simp: known_def)
  then show ?case
  proof cases
    case 1
    show ?thesis
    proof (cases "Firewalls_List a svc (Config.Project (config g))")
      case (Inl err)
      with 1 show ?thesis
        by (simp add: export_loop_firewalls [OF assms(1)] stdout_log_Printf stdout_request
            del: export_loop.simps)
    next
      case (Inr items)
      with 1 assms(3) have "n \<noteq> h" by (auto simp: fetch_error_def)
      with Cons.prems have "n \<in> set rest" by simp
      from IH [OF this, of "exp\<lparr>Firewalls := items\<rparr>"
          "request (Call_Firewalls_List (Config.Project (config g))) w"] 1 Inr
      show ?thesis
        by (simp add: export_loop_firewalls [OF assms(1)] stdout_request del: export_loop.simps)
    qed
  next
    case 2
    show ?thesis
    proof (cases "Routes_List a svc (Config.Project (config g))")
      case (Inl err)
      with 2 show ?thesis
        by (simp add: export_loop_routes [OF assms(1)] stdout_log_Printf stdout_request
            del: export_loop.simps)
    next
      case (Inr items)
      with 2 assms(3) have "n \<noteq> h" by (auto simp: fetch_error_def)
      with Cons.prems have "n \<in> set rest" by simp
      from IH [OF this, of "exp\<lparr>Routes := items\<rparr>"
          "request (Call_Routes_List (Config.Project (config g))) w"] 2 Inr
      show ?thesis
        by (simp add: export_loop_routes [OF assms(1)] stdout_request del: export_loop.simps)
    qed
  next
    case 3
    show ?thesis
    proof (cases "Networks_List a svc (Config.Project (config g))")
      case (Inl err)
      with 3 show ?thesis
        by (simp add: export_loop_networks [OF assms(1)] stdout_log_Printf stdout_request
            del: export_loop.simps)
    next
      case (Inr items)
      with 3 assms(3) have "n \<noteq> h" by (auto simp: fetch_error_def)
      with Cons.prems have "n \<in> set rest" by simp
      from IH [OF this, of "exp\<lparr>Networks := items\<rparr>"
          "request (Call_Networks_List (Config.Project (config g))) w"] 3 Inr
      show ?thesis
        by (simp add: export_loop_networks [OF assms(1)] stdout_request del: export_loop.simps)
    qed
  next
    case 4
    show ?thesis
    proof (cases "Addresses_AggregatedList a svc (Config.Project (config g))")
      case (Inl err)
      with 4 show ?thesis
        by (simp add: export_loop_addresses [OF assms(1)] stdout_log_Printf stdout_request
            del: export_loop.simps)
    next
      case (Inr items)
      with 4 assms(3) have "n \<noteq> h" by (auto simp: fetch_error_def)
      with Cons.prems have "n \<in> set rest" by simp
      from IH [OF this, of "exp\<lparr>jsonData.Addresses := Some (range_Items items [])\<rparr>"
          "request (Call_Addresses_AggregatedList (Config.Project (config g))) w"] 4 Inr
      show ?thesis
        by (simp add: export_loop_addresses [OF assms(1)] stdout_request del: export_loop.simps)
    qed
  next
    case 5
    with assms(3) have "n \<noteq> h" by (auto dest: fetch_error_known)
    with Cons.prems have "n \<in> set rest" by simp
    from IH [OF this, of exp "log_Printf (''Error: invalid service - '' @ h) w"] 5
    show ?thesis
      by (simp add: export_loop_unknown stdout_log_Printf del: export_loop.simps)
  qed
qed

lemma export_loop_Return_ok:
  assumes "service g = Some svc"
    and "export_loop a g names exp w = Return exp' w'"
  shows "\<forall>n\<in>set names. fetch_error a svc (Config.Project (config g)) n = None"
proof
  fix n assume n: "n \<in> set names"
  show "fetch_error a svc (Config.Project (config g)) n = None"
  proof (cases "fetch_error a svc (Config.Project (config g)) n")
    case None
    then show ?thesis .
  next
    case (Some e)
    from export_loop_fail [OF assms(1) n Some, of exp w] assms(2) show ?thesis by simp
  qed
qed

lemma export_loop_append:
  "export_loop a g (pre @ post) exp w =
     (case export_loop a g pre exp w of
        Exit n w' \<Rightarrow> Exit n w'
      | Return exp' w' \<Rightarrow> export_loop a g post exp' w')"
  by (induction pre arbitrary: exp w) (simp_all split: option.splits run.splits)

lemma export_loop_first_fails:
  assumes "service g = Some svc"
    and "fetch_error a svc (Config.Project (config g)) n = Some e"
  shows "export_loop a g (n # post) exp w =
           Exit 1 (w\<lparr>stderr := stderr w @ [Log e],
                     calls := calls w @ List.map_filter (call_of (Config.Project (config g))) [n]\<rparr>)"
proof -
  from fetch_error_known [OF assms(2)]
  consider "n = ''firewalls''" | "n = ''routes''" | "n = ''networks''" | "n = ''addresses''"
    by (auto simp: known_def)
  then show ?thesis
  proof cases
    case 1
    with assms(2) have "Firewalls_List a svc (Config.Project (config g)) = Inl e"
      by (auto simp: fetch_error_def split: sum.splits)
    with 1 show ?thesis
      by (simp add: export_loop_firewalls [OF assms(1)] log_Printf_def request_def
          List.map_filter_simps call_of_def del: export_loop.simps)
  next
    case 2
    with assms(2) have "Routes_List a svc (Config.Project (config g)) = Inl e"
      by (auto simp: fetch_error_def split: sum.splits)
    with 2 show ?thesis
      by (simp add: export_loop_routes [OF assms(1)] log_Printf_def request_def
          List.map_filter_simps call_of_def del: export_loop.simps)
  next
    case 3
    with assms(2) have "Networks_List a svc (Config.Project (config g)) = Inl e"
      by (auto simp: fetch_error_def split: sum.splits)
    with 3 show ?thesis
      by (simp add: export_loop_networks [OF assms(1)] log_Printf_def request_def
          List.map_filter_simps call_of_def del: export_loop.simps)
  next
    case 4
    with assms(2) have "Addresses_AggregatedList a svc (Config.Project (config g)) = Inl e"
      by (auto simp: fetch_error_def split: sum.splits)
    with 4 show ?thesis
      by (simp add: export_loop_addresses [OF assms(1)] log_Printf_def request_def
          List.map_filter_simps call_of_def del: export_loop.simps)
  qed
qed

lemma map_filter_snoc: "List.map_filter f (xs @ [x]) = List.map_filter f xs @ List.map_filter f [x]"
  by (simp add: List.map_filter_def)

text \<open>
  The loop stops at the first name whose call fails: the names after it are neither
  called nor warned about.
\<close>

lemma export_loop_abort:
  assumes "service g = Some svc"
    and "\<forall>m\<in>set pre. fetch_error a svc (Config.Project (config g)) m = None"
    and "fetch_error a svc (Config.Project (config g)) n = Some e"
  shows "export_loop a g (pre @ n # post) exp w =
           Exit 1 (w\<lparr>stderr := stderr w @ map warning (filter (\<lambda>n. \<not> known n) pre) @ [Log e],
                     calls := calls w
                       @ List.map_filter (call_of (Config.Project (config g))) (pre @ [n])\<rparr>)"
  unfolding export_loop_append export_loop_ok [OF assms(1,2)] map_filter_snoc
  by (simp add: export_loop_first_fails [OF assms(1,3)] del: export_loop.simps)

lemma init_Return:
  assumes "init fl w = Return g w'"
  shows "w' = w \<and> flags g = fl \<and> service g = None \<and>
         config g = \<lparr>Config.Service = strings_Split (Flags.Service fl) (CHR '',''),
                     Config.Account = Flags.Account fl, Action_Import = False,
                     Action_Export = True, Config.Project = Flags.Project fl,
                     Config.Region = Flags.Region fl\<rparr>"
  using assms
  by (auto simp: init_def showUsage_def config0_def Let_def split: if_splits)

lemma init_Exit:
  assumes "init fl w = Exit n w'"
  shows "n = 1 \<and> stdout w' = stdout w \<and> calls w' = calls w"
  using assms
  by (auto simp: init_def showUsage_def config0_def Let_def split: if_splits)

lemma main_fail:
  assumes "Action_Export (config g)"
    and "NewSDKConfig a (Config.Account (config g)) = Inr sdk"
    and "compute_New a sdk = Inr svc"
    and "n \<in> set (Config.Service (config g))"
    and "fetch_error a svc (Config.Project (config g)) n = Some e"
  shows "\<exists>w'. main a g w = Exit 1 w' \<and> stdout w' = stdout w"
proof -
  let ?g = "g\<lparr>service := Some svc\<rparr>"
  have s: "service ?g = Some svc" by simp
  have n: "n \<in> set (Config.Service (config ?g))" using assms(4) by simp
  have e: "fetch_error a svc (Config.Project (config ?g)) n = Some e" using assms(5) by simp
  let ?w = "request Call_compute_New
     (request (Call_NewSDKConfig (Config.Account (config g)))
       (log_Printf ''Creating new client from Google SDK config''
         (log_Printf (''Starting export process of '' @ fmt_v (Config.Service (config g)))
           (log_Printf (''Google cloud backup - '' @ version) w))))"
  from export_loop_fail [OF s n e, of new_jsonData ?w]
  obtain w' where "export_loop a ?g (Config.Service (config ?g)) new_jsonData ?w = Exit 1 w'"
    and "stdout w' = stdout ?w"
    by blast
  then show ?thesis
    using assms(1-3)
    by (simp add: main_def createServiceFromSDK_def Let_def stdout_log_Printf stdout_request)
qed

section \<open>The process from \<^verbatim>\<open>init\<close> to exit\<close>

lemma stderr_log_Printf: "stderr (log_Printf m w) = stderr w @ [Log m]"
  by (simp add: log_Printf_def)

lemma stderr_request: "stderr (request c w) = stderr w"
  by (simp add: request_def)

lemma calls_request: "calls (request c w) = calls w @ [c]"
  by (simp add: request_def)

lemma main_ok:
  assumes "Action_Export (config g)"
    and "NewSDKConfig a (Config.Account (config g)) = Inr sdk"
    and "compute_New a sdk = Inr svc"
    and "\<forall>n\<in>set (Config.Service (config g)). fetch_error a svc (Config.Project (config g)) n = None"
  shows "main a g w = Return ()
           \<lparr>stderr = stderr w @ banner (Config.Service (config g))
                @ map warning (filter (\<lambda>n. \<not> known n) (Config.Service (config g))),
            stdout = stdout w @
             (if Readable (flags g)
              then indent 0 (jsonData_doc
                     (fetched a svc (Config.Project (config g)) (set (Config.Service (config g))) new_jsonData))
              else compact (jsonData_doc
                     (fetched a svc (Config.Project (config g)) (set (Config.Service (config g))) new_jsonData))),
            calls = calls w @ [Call_NewSDKConfig (Config.Account (config g)), Call_compute_New]
                @ List.map_filter (call_of (Config.Project (config g))) (Config.Service (config g))\<rparr>"
proof -
  let ?g = "g\<lparr>service := Some svc\<rparr>"
  have s: "service ?g = Some svc" by simp
  have ok: "\<forall>n\<in>set (Config.Service (config ?g)). fetch_error a svc (Config.Project (config ?g)) n = None"
    using assms(4) by simp
  show ?thesis
    using assms(1-3)
    by (simp add: main_def createServiceFromSDK_def Let_def export_loop_ok [OF s ok, simplified]
        stdout_log_Printf stdout_request stderr_log_Printf stderr_request calls_log_Printf
        calls_request banner_def json_Marshal_def json_MarshalIndent_def)
qed

lemma main_client_fails:
  assumes "Action_Export (config g)"
    and "(case NewSDKConfig a (Config.Account (config g)) of
        Inl e \<Rightarrow> None
      | Inr sdk \<Rightarrow> (case compute_New a sdk of Inl e \<Rightarrow> None | Inr svc \<Rightarrow> Some svc)) = None"
  shows "\<exists>w'. main a g w = Exit 1 w' \<and> stdout w' = stdout w"
  using assms
  by (auto simp add: main_def createServiceFromSDK_def Let_def log_Fatal_def
        stdout_log_Printf stdout_request split: sum.splits)

lemma program_init_Exit:
  "init fl world0 = Exit n w \<Longrightarrow>
   program a fl = (1, w) \<and> stdout w = [] \<and> calls w = []"
  by (frule init_Exit) (simp add: program_def world0_def)

lemma program_ok:
  assumes "init fl world0 = Return g w0"
    and "client a fl = Some svc"
    and "\<forall>n\<in>set (requested fl). fetch_error a svc (Flags.Project fl) n = None"
  shows "program a fl =
     (0, \<lparr>stderr = banner (requested fl) @ map warning (filter (\<lambda>n. \<not> known n) (requested fl)),
          stdout = (if Readable fl
                    then indent 0 (jsonData_doc (fetched a svc (Flags.Project fl) (set (requested fl)) new_jsonData))
                    else compact (jsonData_doc (fetched a svc (Flags.Project fl) (set (requested fl)) new_jsonData))),
          calls = [Call_NewSDKConfig (Flags.Account fl), Call_compute_New]
                    @ List.map_filter (call_of (Flags.Project fl)) (requested fl)\<rparr>)"
proof -
  note i = init_Return [OF assms(1)]
  from assms(2) obtain sdk where sdk: "NewSDKConfig a (Flags.Account fl) = Inr sdk"
    and svc: "compute_New a sdk = Inr svc"
    by (auto simp: client_def split: sum.splits)
  have e: "Action_Export (config g)" using i by simp
  have sdk': "NewSDKConfig a (Config.Account (config g)) = Inr sdk" using i sdk by simp
  have ok: "\<forall>n\<in>set (Config.Service (config g)). fetch_error a svc (Config.Project (config g)) n = None"
    using i assms(3) by (simp add: requested_def)
  show ?thesis
    using i assms(1)
    by (simp add: program_def main_ok [OF e sdk' svc ok] requested_def world0_def)
qed

lemma program_fetch_fails:
  assumes "init fl world0 = Return g w0"
    and "client a fl = Some svc"
    and "n \<in> set (requested fl)"
    and "fetch_error a svc (Flags.Project fl) n = Some e"
  shows "\<exists>w'. program a fl = (1, w') \<and> stdout w' = []"
proof -
  note i = init_Return [OF assms(1)]
  from assms(2) obtain sdk where sdk: "NewSDKConfig a (Flags.Account fl) = Inr sdk"
    and svc: "compute_New a sdk = Inr svc"
    by (auto simp: client_def split: sum.splits)
  have e: "Action_Export (config g)" using i by simp
  have sdk': "NewSDKConfig a (Config.Account (config g)) = Inr sdk" using i sdk by simp
  have n: "n \<in> set (Config.Service (config g))" using i assms(3) by (simp add: requested_def)
  have f: "fetch_error a svc (Config.Project (config g)) n = Some e" using i assms(4) by simp
  from main_fail [OF e sdk' svc n f, of w0] obtain w' where "main a g w0 = Exit 1 w'"
    and "stdout w' = stdout w0"
    by blast
  with i assms(1) show ?thesis
    by (simp add: program_def world0_def)
qed

lemma program_client_fails:
  assumes "init fl world0 = Return g w0"
    and "client a fl = None"
  shows "\<exists>w'. program a fl = (1, w') \<and> stdout w' = []"
proof -
  note i = init_Return [OF assms(1)]
  have e: "Action_Export (config g)" using i by simp
  from main_client_fails [OF e, of a w0] assms(2) i
  obtain w' where "main a g w0 = Exit 1 w'" and "stdout w' = stdout w0"
    by (auto simp: client_def)
  with i assms(1) show ?thesis
    by (simp add: program_def world0_def)
qed

lemma main_abort:
  assumes "Action_Export (config g)"
    and "NewSDKConfig a (Config.Account (config g)) = Inr sdk"
    and "compute_New a sdk = Inr svc"
    and "Config.Service (config g) = pre @ n # post"
    and "\<forall>m\<in>set pre. fetch_error a svc (Config.Project (config g)) m = None"
    and "fetch_error a svc (Config.Project (config g)) n = Some e"
  shows "main a g w = Exit 1
           \<lparr>stderr = stderr w @ banner (Config.Service (config g))
                @ map warning (filter (\<lambda>n. \<not> known n) pre) @ [Log e],
            stdout = stdout w,
            calls = calls w @ [Call_NewSDKConfig (Config.Account (config g)), Call_compute_New]
                @ List.map_filter (call_of (Config.Project (config g))) (pre @ [n])\<rparr>"
proof -
  let ?g = "g\<lparr>service := Some svc\<rparr>"
  have s: "service ?g = Some svc" by simp
  have ok: "\<forall>m\<in>set pre. fetch_error a svc (Config.Project (config ?g)) m = None"
    using assms(5) by simp
  have bad: "fetch_error a svc (Config.Project (config ?g)) n = Some e"
    using assms(6) by simp
  note loop = export_loop_abort [OF s ok bad, simplified]
  show ?thesis
    using assms(1-3)
    by (simp add: main_def createServiceFromSDK_def Let_def assms(4) loop
        stdout_log_Printf stdout_request stderr_log_Printf stderr_request calls_log_Printf
        calls_request banner_def)
qed

lemma program_abort:
  assumes "init fl world0 = Return g w0"
    and "client a fl = Some svc"
    and "requested fl = pre @ n # post"
    and "\<forall>m\<in>set pre. fetch_error a svc (Flags.Project fl) m = None"
    and "fetch_error a svc (Flags.Project fl) n = Some e"
  shows "program a fl =
     (1, \<lparr>stderr = banner (requested fl) @ map warning (filter (\<lambda>n. \<not> known n) pre) @ [Log e],
          stdout = [],
          calls = [Call_NewSDKConfig (Flags.Account fl), Call_compute_New]
                    @ List.map_filter (call_of (Flags.Project fl)) (pre @ [n])\<rparr>)"
proof -
  note i = init_Return [OF assms(1)]
  from assms(2) obtain sdk where sdk: "NewSDKConfig a (Flags.Account fl) = Inr sdk"
    and svc: "compute_New a sdk = Inr svc"
    by (auto simp: client_def split: sum.splits)
  have e: "Action_Export (config g)" using i by simp
  have sdk': "NewSDKConfig a (Config.Account (config g)) = Inr sdk" using i sdk by simp
  have names: "Config.Service (config g) = pre @ n # post"
    using i assms(3) by (simp add: requested_def)
  have ok: "\<forall>m\<in>set pre. fetch_error a svc (Config.Project (config g)) m = None"
    using i assms(4) by simp
  have bad: "fetch_error a svc (Config.Project (config g)) n = Some e"
    using i assms(5) by simp
  have r: "requested fl = Config.Service (config g)"
    using i by (simp add: requested_def)
  show ?thesis
    using i assms(1)
    by (simp add: program_def main_abort [OF e sdk' svc names ok bad] r world0_def)
qed

lemma first_failure_split:
  assumes "\<not> (\<forall>n\<in>set names. fetch_error a svc p n = None)"
  shows "\<exists>post e. names = before_failure a svc p names @ first_failure a svc p names # post
           \<and> (\<forall>m\<in>set (before_failure a svc p names). fetch_error a svc p m = None)
           \<and> fetch_error a svc p (first_failure a svc p names) = Some e"
proof -
  let ?P = "\<lambda>n. fetch_error a svc p n = None"
  from assms have ne: "dropWhile ?P names \<noteq> []"
    by (simp add: dropWhile_eq_Nil_conv)
  then obtain n post where d: "dropWhile ?P names = n # post"
    by (cases "dropWhile ?P names") auto
  from hd_dropWhile [OF ne] d obtain e where "fetch_error a svc p n = Some e"
    by auto
  moreover have "names = takeWhile ?P names @ n # post"
    using takeWhile_dropWhile_id [of ?P names] d by simp
  moreover have "\<forall>m\<in>set (takeWhile ?P names). ?P m"
    by (auto dest: set_takeWhileD)
  ultimately show ?thesis
    using d by (auto simp: before_failure_def first_failure_def)
qed

lemma exporter_Return:
  assumes "services_Export n = Some f" and "f a g exp w = Return exp' w'"
  shows "(n \<noteq> ''firewalls'' \<longrightarrow> Firewalls exp' = Firewalls exp)
       \<and> (n \<noteq> ''routes'' \<longrightarrow> Routes exp' = Routes exp)
       \<and> (n \<noteq> ''networks'' \<longrightarrow> Networks exp' = Networks exp)
       \<and> (n \<noteq> ''addresses'' \<longrightarrow> jsonData.Addresses exp' = jsonData.Addresses exp)"
  using assms
  by (auto simp: services_Export_Some exportFirewalls_def exportRoutes_def exportNetworks_def
      exportAddresses_def log_Fatal_def Let_def split: option.splits sum.splits)

lemma export_loop_untouched:
  "export_loop a g names exp w = Return exp' w' \<Longrightarrow>
     (''firewalls'' \<notin> set names \<longrightarrow> Firewalls exp' = Firewalls exp)
   \<and> (''routes'' \<notin> set names \<longrightarrow> Routes exp' = Routes exp)
   \<and> (''networks'' \<notin> set names \<longrightarrow> Networks exp' = Networks exp)
   \<and> (''addresses'' \<notin> set names \<longrightarrow> jsonData.Addresses exp' = jsonData.Addresses exp)"
proof (induction names arbitrary: exp w)
  case Nil
  then show ?case by simp
next
  case (Cons n rest)
  show ?case
  proof (cases "services_Export n")
    case None
    with Cons.prems have "export_loop a g rest exp (log_Printf (''Error: invalid service - '' @ n) w) = Return exp' w'"
      by simp
    from Cons.IH [OF this] show ?thesis by simp
  next
    case (Some f)
    with Cons.prems obtain exp1 w1 where f: "f a g exp w = Return exp1 w1"
      and r: "export_loop a g rest exp1 w1 = Return exp' w'"
      by (auto split: run.splits)
    from exporter_Return [OF Some f] Cons.IH [OF r] show ?thesis by auto
  qed
qed

lemma doc_keys_jsonData:
  "set (doc_keys (jsonData_doc d)) \<subseteq> set (populated d)"
  by (auto simp: doc_keys_def jsonData_doc_def populated_def omitempty_slice_def omitempty_map_def
      len_def split: if_splits option.splits)

lemma export_loop_cong_globals:
  assumes "service g' = service g" and "Config.Project (config g') = Config.Project (config g)"
  shows "export_loop a g' names exp w = export_loop a g names exp w"
proof (induction names arbitrary: exp w)
  case Nil
  show ?case by simp
next
  case (Cons n rest)
  show ?case
  proof (cases "services_Export n")
    case None
    then show ?thesis by (simp add: Cons.IH)
  next
    case (Some f)
    then have "f a g' exp w = f a g exp w"
      using assms
      by (auto simp: services_Export_Some exportFirewalls_def exportRoutes_def exportNetworks_def
          exportAddresses_def split: option.splits)
    with Some show ?thesis by (simp add: Cons.IH cong: run.case_cong)
  qed
qed

lemma main_cong_globals:
  assumes "Readable (flags g') = Readable (flags g)"
    and "Action_Export (config g') = Action_Export (config g)"
    and "Action_Import (config g') = Action_Import (config g)"
    and "Config.Service (config g') = Config.Service (config g)"
    and "Config.Account (config g') = Config.Account (config g)"
    and "Config.Project (config g') = Config.Project (config g)"
  shows "main a g' w = main a g w"
proof -
  have L: "export_loop a (g'\<lparr>service := Some svc\<rparr>) names exp w1
         = export_loop a (g\<lparr>service := Some svc\<rparr>) names exp w1" for svc names exp w1
    by (rule export_loop_cong_globals) (simp_all add: assms)
  show ?thesis
  proof (cases "NewSDKConfig a (Config.Account (config g))")
    case (Inl err)
    then show ?thesis
      by (simp add: main_def createServiceFromSDK_def Let_def assms log_Fatal_def)
  next
    case sdk: (Inr sdk)
    show ?thesis
    proof (cases "compute_New a sdk")
      case (Inl err)
      with sdk show ?thesis
        by (simp add: main_def createServiceFromSDK_def Let_def assms log_Fatal_def)
    next
      case (Inr svc)
      with sdk show ?thesis
        by (simp add: main_def createServiceFromSDK_def Let_def assms L cong: run.case_cong)
    qed
  qed
qed

lemma init_Region:
  "init (fl\<lparr>Flags.Region := r\<rparr>) w =
     (case init fl w of
        Exit n w' \<Rightarrow> Exit n w'
      | Return g w' \<Rightarrow>
          Return (g\<lparr>flags := fl\<lparr>Flags.Region := r\<rparr>,
                    config := (config g)\<lparr>Config.Region := r\<rparr>\<rparr>) w')"
  by (simp add: init_def showUsage_def Let_def config0_def)

section \<open>The reader inverts the serializer\<close>

declare show_nat.simps [simp del]

lemma digit_less_10: "d < 10 \<Longrightarrow> is_digit (digit d) \<and> of_char (digit d) - 48 = d"
  by (simp add: digit_def is_digit_def)

lemma read_nat_show_nat:
  "read_nat acc (show_nat n @ rest) = read_nat (acc * 10 ^ length (show_nat n) + n) rest"
proof (induction n arbitrary: acc rest rule: show_nat.induct)
  case (1 n)
  have d: "is_digit (digit (n mod 10))" "of_char (digit (n mod 10)) - 48 = n mod 10"
    using digit_less_10 [of "n mod 10"] by simp_all
  show ?case
  proof (cases "n < 10")
    case True
    with d show ?thesis
      by (subst show_nat.simps, subst (2) show_nat.simps) (simp add: mult.commute)
  next
    case False
    have "read_nat acc (show_nat n @ rest)
        = read_nat acc (show_nat (n div 10) @ digit (n mod 10) # rest)"
      using False by (subst show_nat.simps) simp
    also have "\<dots> = read_nat (acc * 10 ^ length (show_nat (n div 10)) + n div 10)
                        (digit (n mod 10) # rest)"
      using "1.IH" [OF False] .
    also have "\<dots> = read_nat (10 * (acc * 10 ^ length (show_nat (n div 10)) + n div 10) + n mod 10) rest"
      using d by simp
    also have "10 * (acc * 10 ^ length (show_nat (n div 10)) + n div 10) + n mod 10
        = acc * 10 ^ length (show_nat n) + n"
      using False by (subst (2) show_nat.simps) (simp add: algebra_simps)
    finally show ?thesis .
  qed
qed

lemma read_nat_delimited: "delimited rest \<Longrightarrow> read_nat acc rest = (acc, rest)"
  by (cases rest) (simp_all add: delimited_def)

lemma show_nat_first: "\<exists>c cs. show_nat n = c # cs \<and> is_digit c"
proof (induction n rule: show_nat.induct)
  case (1 n)
  show ?case
  proof (cases "n < 10")
    case True
    then show ?thesis
      using digit_less_10 [of "n mod 10"] by (subst show_nat.simps) simp
  next
    case False
    from "1.IH" [OF False] obtain c cs where "show_nat (n div 10) = c # cs" and "is_digit c"
      by blast
    with False show ?thesis
      by (subst show_nat.simps) simp
  qed
qed

lemma read_number_show_int:
  assumes "delimited rest"
  shows "read_number (show_int i @ rest) = Some (i, rest)"
proof -
  have r: "read_nat 0 (show_nat n @ rest) = (n, rest)" for n
    by (simp add: read_nat_show_nat read_nat_delimited [OF assms])
  show ?thesis
  proof (cases "i < 0")
    case True
    obtain c cs where c: "show_nat (nat (- i)) = c # cs" "is_digit c"
      using show_nat_first by blast
    from r [of "nat (- i)"] c True show ?thesis
      by (simp add: read_number_def show_int_def)
  next
    case False
    obtain c cs where c: "show_nat (nat i) = c # cs" "is_digit c"
      using show_nat_first by blast
    then have "c \<noteq> CHR ''-''"
      by (auto simp: is_digit_def)
    with r [of "nat i"] c False show ?thesis
      by (simp add: read_number_def show_int_def)
  qed
qed

lemma unhex_hex: "n < 16 \<Longrightarrow> unhex (hex n) = Some n"
proof -
  assume "n < 16"
  then consider "n = 0" | "n = 1" | "n = 2" | "n = 3" | "n = 4" | "n = 5" | "n = 6" | "n = 7"
    | "n = 8" | "n = 9" | "n = 10" | "n = 11" | "n = 12" | "n = 13" | "n = 14" | "n = 15"
    by atomize_elim arith
  then show ?thesis
    by cases (simp_all add: hex_def unhex_def is_digit_def)
qed

lemma read_string_u:
  assumes "unhex h1 = Some a" and "unhex h2 = Some b" and "unhex h3 = Some k" and "unhex h4 = Some d"
    and "utf8_encode (((a * 16 + b) * 16 + k) * 16 + d) = Some bytes"
  shows "read_string (CHR 0x5C # CHR ''u'' # h1 # h2 # h3 # h4 # cs) =
     (case read_string cs of
        None \<Rightarrow> None
      | Some (s, r) \<Rightarrow> Some (bytes @ s, r))"
  using assms by (simp split: option.splits)

lemma read_string_backslash:
  assumes "e \<noteq> CHR ''u''" and "unescape e = Some ch"
  shows "read_string (CHR 0x5C # e # cs) =
     (case read_string cs of None \<Rightarrow> None | Some (s, r) \<Rightarrow> Some (ch # s, r))"
  using assms by simp

lemma read_string_plain:
  assumes "\<forall>c\<in>set raw. c \<noteq> CHR 0x22 \<and> c \<noteq> CHR 0x5C"
  shows "read_string (raw @ cs) =
     (case read_string cs of None \<Rightarrow> None | Some (s, r) \<Rightarrow> Some (raw @ s, r))"
  using assms by (induction raw) (auto split: option.splits)

lemma rune_len_bytes:
  assumes "rune_len (b # bs) = k" and "0 < k" and "0x80 \<le> (of_char b :: nat)"
  shows "k - 1 \<le> length bs \<and> (\<forall>c\<in>set (take (k - 1) bs). 0x80 \<le> (of_char c :: nat))"
  using assms
  by (auto simp: rune_len_def Let_def in_range_def take_Suc_conv_app_nth split: if_splits list.splits)


lemma read_string_escape_byte:
  "read_string (escape_byte c @ cs) =
     (case read_string cs of None \<Rightarrow> None | Some (s, r) \<Rightarrow> Some (c # s, r))"
proof -
  have lt: "(of_char c :: nat) < 256"
    by simp
  have hi: "unhex (hex (of_char c div 16)) = Some (of_char c div 16)"
    using lt by (intro unhex_hex) arith
  have lo: "unhex (hex (of_char c mod 16)) = Some (of_char c mod 16)"
    by (intro unhex_hex) simp
  have zero: "unhex (CHR ''0'') = Some 0"
    by (simp add: unhex_def is_digit_def)
  consider (cq) "c = CHR 0x5C \<or> c = CHR 0x22"
    | (cs2) "c = CHR 0x08 \<or> c = CHR 0x0C \<or> c = CHR 0x0A \<or> c = CHR 0x0D \<or> c = CHR 0x09"
    | (cu) "c \<noteq> CHR 0x5C" "c \<noteq> CHR 0x22" "c \<noteq> CHR 0x08" "c \<noteq> CHR 0x0C" "c \<noteq> CHR 0x0A"
        "c \<noteq> CHR 0x0D" "c \<noteq> CHR 0x09"
        "(of_char c :: nat) < 0x20 \<or> c = CHR ''<'' \<or> c = CHR ''>'' \<or> c = CHR ''&''"
    | (cp1) "c \<noteq> CHR 0x5C" "c \<noteq> CHR 0x22" "c \<noteq> CHR 0x08" "c \<noteq> CHR 0x0C" "c \<noteq> CHR 0x0A"
        "c \<noteq> CHR 0x0D" "c \<noteq> CHR 0x09"
        "\<not> ((of_char c :: nat) < 0x20 \<or> c = CHR ''<'' \<or> c = CHR ''>'' \<or> c = CHR ''&'')"
    by blast
  then show ?thesis
  proof cases
    case cq
    then have e: "escape_byte c = [CHR 0x5C, c]" and u: "c \<noteq> CHR ''u''" and un: "unescape c = Some c"
      by (auto simp: escape_byte_def unescape_def)
    show ?thesis
      unfolding e append_Cons append_Nil by (rule read_string_backslash [OF u un])
  next
    case cs2
    then obtain e where e: "escape_byte c = [CHR 0x5C, e]" and u: "e \<noteq> CHR ''u''" and un: "unescape e = Some c"
      by (auto simp: escape_byte_def unescape_def)
    show ?thesis
      unfolding e append_Cons append_Nil by (rule read_string_backslash [OF u un])
  next
    case cu
    from cu(8) have small: "(of_char c :: nat) < 128"
      by (elim disjE) simp_all
    from cu have e: "escape_byte c = [CHR 0x5C, CHR ''u'', CHR ''0'', CHR ''0'',
              hex (of_char c div 16), hex (of_char c mod 16)]"
      by (simp add: escape_byte_def)
    have enc: "utf8_encode (((0 * 16 + 0) * 16 + of_char c div 16) * 16 + of_char c mod 16) = Some [c]"
      using small by (simp add: utf8_encode_def)
    have "read_string (CHR 0x5C # CHR ''u'' # CHR ''0'' # CHR ''0'' #
          hex (of_char c div 16) # hex (of_char c mod 16) # cs) =
        (case read_string cs of
           None \<Rightarrow> None
         | Some (s, r) \<Rightarrow> Some ([c] @ s, r))"
      by (rule read_string_u [OF zero zero hi lo enc])
    then show ?thesis
      by (simp add: e del: read_string.simps split: option.splits)
  next
    case cp1
    then have "escape_byte c = [c]"
      by (simp add: escape_byte_def)
    with cp1(1,2) show ?thesis
      by (simp split: option.splits)
  qed
qed

lemma char_of_byte: "of_char c = (n :: nat) \<Longrightarrow> char_of n = c"
  by auto

lemma read_string_replacement:
  "read_string (CHR 0x5C # CHR ''u'' # CHR ''f'' # CHR ''f'' # CHR ''f'' # CHR ''d'' # cs) =
     (case read_string cs of
        None \<Rightarrow> None
      | Some (s, r) \<Rightarrow> Some ([CHR 0xEF, CHR 0xBF, CHR 0xBD] @ s, r))"
proof -
  have f: "unhex (CHR ''f'') = Some 15" and d: "unhex (CHR ''d'') = Some 13"
    by (simp_all add: unhex_def is_digit_def)
  have enc: "utf8_encode (((15 * 16 + 15) * 16 + 15) * 16 + 13) = Some [CHR 0xEF, CHR 0xBF, CHR 0xBD]"
    by (simp add: utf8_encode_def char_of_byte)
  show ?thesis
    by (rule read_string_u [OF f f f d enc])
qed

lemma read_string_separator:
  assumes "n = 8 \<and> c = CHR 0xA8 \<or> n = 9 \<and> c = CHR 0xA9"
  shows "read_string (CHR 0x5C # CHR ''u'' # CHR ''2'' # CHR ''0'' # CHR ''2'' # hex n # cs) =
     (case read_string cs of
        None \<Rightarrow> None
      | Some (s, r) \<Rightarrow> Some ([CHR 0xE2, CHR 0x80, c] @ s, r))"
proof -
  have two: "unhex (CHR ''2'') = Some 2" and zero: "unhex (CHR ''0'') = Some 0"
    by (simp_all add: unhex_def is_digit_def)
  have n: "unhex (hex n) = Some n"
    using assms by (intro unhex_hex) auto
  have enc: "utf8_encode (((2 * 16 + 0) * 16 + 2) * 16 + n) = Some [CHR 0xE2, CHR 0x80, c]"
    using assms by (auto simp: utf8_encode_def char_of_byte)
  show ?thesis
    by (rule read_string_u [OF two zero two n enc])
qed

lemma rune_len_separator:
  "rune_len (CHR 0xE2 # CHR 0x80 # c # r) = (if in_range 0x80 0xBF c then 3 else 0)"
  by (simp add: rune_len_def in_range_def)

lemma read_string_escape:
  "read_string (escape s @ CHR 0x22 # rest) = Some (coerce_utf8 s, rest)"
proof (induction s rule: escape.induct)
  case 1
  show ?case by simp
next
  case (2 b bs)
  consider (ascii) "(of_char b :: nat) < 0x80"
    | (invalid) "\<not> (of_char b :: nat) < 0x80" "rune_len (b # bs) = 0"
    | (ls) "\<not> (of_char b :: nat) < 0x80" "rune_len (b # bs) \<noteq> 0"
        "b = CHR 0xE2" "take 2 bs = [CHR 0x80, CHR 0xA8]"
    | (ps) "\<not> (of_char b :: nat) < 0x80" "rune_len (b # bs) \<noteq> 0"
        "\<not> (b = CHR 0xE2 \<and> take 2 bs = [CHR 0x80, CHR 0xA8])"
        "b = CHR 0xE2" "take 2 bs = [CHR 0x80, CHR 0xA9]"
    | (raw) "\<not> (of_char b :: nat) < 0x80" "rune_len (b # bs) \<noteq> 0"
        "\<not> (b = CHR 0xE2 \<and> take 2 bs = [CHR 0x80, CHR 0xA8])"
        "\<not> (b = CHR 0xE2 \<and> take 2 bs = [CHR 0x80, CHR 0xA9])"
    by blast
  then show ?case
  proof cases
    case ascii
    then show ?thesis
      using "2.IH"(1) by (simp add: read_string_escape_byte)
  next
    case invalid
    then show ?thesis
      using "2.IH"(2) by (simp add: read_string_replacement del: read_string.simps)
  next
    case ls
    from ls(4) obtain r where bs: "bs = CHR 0x80 # CHR 0xA8 # r"
      by (cases bs; cases "tl bs") (auto split: if_splits)
    have len: "rune_len (b # bs) = 3"
      using ls(3) by (simp add: bs rune_len_separator in_range_def)
    have IH: "read_string (escape (drop 2 bs) @ CHR 0x22 # rest) = Some (coerce_utf8 (drop 2 bs), rest)"
      using "2.IH"(3) ls by simp
    have "read_string (escape (b # bs) @ CHR 0x22 # rest) =
        read_string (CHR 0x5C # CHR ''u'' # CHR ''2'' # CHR ''0'' # CHR ''2'' # hex 8 #
          (escape (drop 2 bs) @ CHR 0x22 # rest))"
      using ls by simp
    also have "\<dots> = Some ([CHR 0xE2, CHR 0x80, CHR 0xA8] @ coerce_utf8 (drop 2 bs), rest)"
      using read_string_separator [of 8 "CHR 0xA8" "escape (drop 2 bs) @ CHR 0x22 # rest"] IH
      by (simp del: read_string.simps)
    also have "[CHR 0xE2, CHR 0x80, CHR 0xA8] @ coerce_utf8 (drop 2 bs) = coerce_utf8 (b # bs)"
      using ls(1,3) len by (simp add: bs)
    finally show ?thesis .
  next
    case ps
    from ps(5) obtain r where bs: "bs = CHR 0x80 # CHR 0xA9 # r"
      by (cases bs; cases "tl bs") (auto split: if_splits)
    have len: "rune_len (b # bs) = 3"
      using ps(4) by (simp add: bs rune_len_separator in_range_def)
    have IH: "read_string (escape (drop 2 bs) @ CHR 0x22 # rest) = Some (coerce_utf8 (drop 2 bs), rest)"
      using "2.IH"(4) ps by simp
    have "read_string (escape (b # bs) @ CHR 0x22 # rest) =
        read_string (CHR 0x5C # CHR ''u'' # CHR ''2'' # CHR ''0'' # CHR ''2'' # hex 9 #
          (escape (drop 2 bs) @ CHR 0x22 # rest))"
      using ps by simp
    also have "\<dots> = Some ([CHR 0xE2, CHR 0x80, CHR 0xA9] @ coerce_utf8 (drop 2 bs), rest)"
      using read_string_separator [of 9 "CHR 0xA9" "escape (drop 2 bs) @ CHR 0x22 # rest"] IH
      by (simp del: read_string.simps)
    also have "[CHR 0xE2, CHR 0x80, CHR 0xA9] @ coerce_utf8 (drop 2 bs) = coerce_utf8 (b # bs)"
      using ps(1,4) len by (simp add: bs)
    finally show ?thesis .
  next
    case raw
    define k where "k = rune_len (b # bs) - 1"
    have hi: "0x80 \<le> (of_char b :: nat)"
      using raw(1) by simp
    have bytes: "\<forall>c\<in>set (take k bs). 0x80 \<le> (of_char c :: nat)"
      using rune_len_bytes [OF refl _ hi] raw(2) by (simp add: k_def)
    have plain: "\<forall>c\<in>set (b # take k bs). c \<noteq> CHR 0x22 \<and> c \<noteq> CHR 0x5C"
      using bytes hi by auto
    have IH: "read_string (escape (drop k bs) @ CHR 0x22 # rest) = Some (coerce_utf8 (drop k bs), rest)"
      using "2.IH"(5) raw by (simp add: k_def)
    have "escape (b # bs) @ CHR 0x22 # rest = (b # take k bs) @ (escape (drop k bs) @ CHR 0x22 # rest)"
      using raw by (simp add: k_def)
    then have "read_string (escape (b # bs) @ CHR 0x22 # rest) = Some ((b # take k bs) @ coerce_utf8 (drop k bs), rest)"
      using read_string_plain [OF plain, of "escape (drop k bs) @ CHR 0x22 # rest"] IH by simp
    moreover have "(b # take k bs) @ coerce_utf8 (drop k bs) = coerce_utf8 (b # bs)"
      using raw by (simp add: k_def)
    ultimately show ?thesis
      by simp
  qed
qed

lemma coerce_utf8_ascii:
  "\<forall>c\<in>set s. (of_char c :: nat) < 0x80 \<Longrightarrow> coerce_utf8 s = s"
  by (induction s) simp_all

lemma compact_layout:
  "compact j = layout (\<lambda>d. []) [] d j"
  "compact_elems xs = layout_elems (\<lambda>d. []) [] d xs"
  "compact_members ms = layout_members (\<lambda>d. []) [] d ms"
  by (induction j and xs and ms arbitrary: d and d and d
      rule: compact_compact_elems_compact_members.induct) simp_all

lemma indent_layout:
  "indent d j = layout break '' '' d j"
  "indent_elems d xs = layout_elems break '' '' d xs"
  "indent_members d ms = layout_members break '' '' d ms"
  by (induction d j and d xs and d ms rule: indent_indent_elems_indent_members.induct) simp_all

lemma skip_space_spaces: "spaces ws \<Longrightarrow> skip_space (ws @ cs) = skip_space cs"
  by (induction ws) (simp_all add: spaces_def)

lemma spaces_not_digit: "is_space c \<Longrightarrow> \<not> is_digit c"
  by (auto simp: is_space_def is_digit_def)

lemma skip_space_start:
  "spaces ws \<Longrightarrow> \<not> is_space c \<Longrightarrow> skip_space (ws @ c # cs) = c # cs"
  by (simp add: skip_space_spaces)

lemma show_int_first:
  "\<exists>c cs. show_int i = c # cs \<and> (c = CHR ''-'' \<or> is_digit c)"
proof (cases "i < 0")
  case True
  then show ?thesis by (simp add: show_int_def)
next
  case False
  obtain c cs where "show_nat (nat i) = c # cs" and "is_digit c"
    using show_nat_first by blast
  with False show ?thesis by (simp add: show_int_def)
qed

lemma parse_value_null:
  "spaces ws \<Longrightarrow> parse_value (Suc n) (ws @ ''null'' @ rest) = Some (JNull, rest)"
  by (simp add: skip_space_spaces is_space_def)

lemma parse_value_bool:
  "spaces ws \<Longrightarrow>
   parse_value (Suc n) (ws @ (if b then ''true'' else ''false'') @ rest) = Some (JBool b, rest)"
  by (simp add: skip_space_spaces is_space_def)

lemma parse_value_num:
  assumes "spaces ws" and "delimited rest"
  shows "parse_value (Suc n) (ws @ show_int i @ rest) = Some (JNum i, rest)"
proof -
  obtain c cs where c: "show_int i = c # cs" and d: "c = CHR ''-'' \<or> is_digit c"
    using show_int_first by blast
  from d have ns: "\<not> is_space c" and other: "c \<noteq> CHR ''{''" "c \<noteq> CHR ''[''" "c \<noteq> CHR 0x22"
      "c \<noteq> CHR ''n''" "c \<noteq> CHR ''t''" "c \<noteq> CHR ''f''"
    by (auto simp: is_space_def is_digit_def)
  have "skip_space (ws @ show_int i @ rest) = c # cs @ rest"
    using skip_space_start [OF assms(1) ns] c by simp
  moreover have "read_number (c # cs @ rest) = Some (i, rest)"
    using read_number_show_int [OF assms(2), of i] c by simp
  ultimately show ?thesis
    using other by simp
qed

lemma parse_value_str:
  assumes "spaces ws"
  shows "parse_value (Suc n) (ws @ quote s @ rest) = Some (JStr (coerce_utf8 s), rest)"
proof -
  have "skip_space (ws @ quote s @ rest) = CHR 0x22 # escape s @ CHR 0x22 # rest"
    using skip_space_start [OF assms, of "CHR 0x22"] by (simp add: quote_def is_space_def)
  then show ?thesis
    by (simp add: read_string_escape)
qed

lemma parse_value_empty_arr:
  "spaces ws \<Longrightarrow> parse_value (Suc n) (ws @ ''[]'' @ rest) = Some (JArr [], rest)"
  by (simp add: skip_space_spaces is_space_def)

lemma parse_value_empty_obj:
  "spaces ws \<Longrightarrow> parse_value (Suc n) (ws @ ''{}'' @ rest) = Some (JObj [], rest)"
  by (simp add: skip_space_spaces is_space_def)

lemma parse_value_arr:
  assumes "spaces ws" and "skip_space cs = c # cs'" and "c \<noteq> CHR '']''"
  shows "parse_value (Suc n) (ws @ CHR ''['' # cs) =
           (case parse_elems n cs of None \<Rightarrow> None | Some (xs, r) \<Rightarrow> Some (JArr xs, r))"
  using assms by (simp add: skip_space_spaces is_space_def)

lemma parse_value_obj:
  assumes "spaces ws" and "skip_space cs = c # cs'" and "c \<noteq> CHR ''}''"
  shows "parse_value (Suc n) (ws @ CHR ''{'' # cs) =
           (case parse_members n cs of None \<Rightarrow> None | Some (ms, r) \<Rightarrow> Some (JObj ms, r))"
  using assms by (simp add: skip_space_spaces is_space_def)

lemma layout_first:
  "\<exists>c cs. layout br sp d j = c # cs \<and> value_start c"
proof (cases j)
  case (JNum i)
  obtain c cs where "show_int i = c # cs" and "c = CHR ''-'' \<or> is_digit c"
    using show_int_first by blast
  with JNum show ?thesis
    by (auto simp: value_start_def is_space_def is_digit_def)
qed (auto simp: value_start_def is_space_def quote_def)

lemma delimited_close:
  "spaces ws \<Longrightarrow> c = CHR '']'' \<or> c = CHR ''}'' \<or> c = CHR '','' \<Longrightarrow> delimited (ws @ c # rest)"
  by (cases ws) (auto simp: delimited_def spaces_def is_digit_def dest: spaces_not_digit)

lemma skip_space_close:
  "spaces ws \<Longrightarrow> c = CHR '']'' \<or> c = CHR ''}'' \<or> c = CHR '','' \<or> c = CHR '':'' \<Longrightarrow>
   skip_space (ws @ c # rest) = c # rest"
  by (rule skip_space_start) (auto simp: is_space_def)

lemma skip_space_comma: "skip_space (CHR '','' # cs) = CHR '','' # cs"
  by (simp add: is_space_def)

lemma layout_elems_first:
  "xs \<noteq> [] \<Longrightarrow> \<exists>c cs. layout_elems br sp d xs @ rest = c # cs \<and> value_start c"
proof (cases xs)
  case Nil
  assume "xs \<noteq> []"
  with Nil show ?thesis by simp
next
  case (Cons x xs')
  obtain c cs where "layout br sp d x = c # cs" and "value_start c"
    using layout_first by blast
  with Cons show ?thesis by simp
qed

lemma parse_layout:
  assumes br: "\<And>d. spaces (br d)" and sp: "spaces sp"
  shows "weight j \<le> n \<Longrightarrow> spaces ws \<Longrightarrow> delimited rest \<Longrightarrow>
         parse_value n (ws @ layout br sp d j @ rest) = Some (coerced j, rest)"
    and "xs \<noteq> [] \<Longrightarrow> weight_elems xs \<le> n \<Longrightarrow> spaces ws \<Longrightarrow> spaces ws' \<Longrightarrow>
         parse_elems n (ws @ layout_elems br sp d xs @ ws' @ CHR '']'' # rest) =
           Some (coerced_elems xs, rest)"
    and "ms \<noteq> [] \<Longrightarrow> weight_members ms \<le> n \<Longrightarrow> spaces ws \<Longrightarrow> spaces ws' \<Longrightarrow>
         parse_members n (ws @ layout_members br sp d ms @ ws' @ CHR ''}'' # rest) =
           Some (coerced_members ms, rest)"
proof (induction j and xs and ms arbitrary: n ws rest d and n ws ws' rest d and n ws ws' rest d
    rule: weight_weight_elems_weight_members.induct)
  case 1
  then obtain m where "n = Suc m" by (cases n) auto
  with 1 show ?case using parse_value_null [of ws m rest] by (simp del: parse_value.simps)
next
  case (2 b)
  then obtain m where "n = Suc m" by (cases n) auto
  with 2 show ?case using parse_value_bool [of ws m b rest] by (simp del: parse_value.simps)
next
  case (3 i)
  then obtain m where "n = Suc m" by (cases n) auto
  with 3 show ?case by (simp add: parse_value_num del: parse_value.simps)
next
  case (4 s)
  then obtain m where "n = Suc m" by (cases n) auto
  with 4 show ?case by (simp add: parse_value_str del: parse_value.simps)
next
  case (5 xs)
  then obtain m where n: "n = Suc m" and m: "weight_elems xs \<le> m" by (cases n) auto
  show ?case
  proof (cases "xs = []")
    case True
    with n "5.prems" show ?thesis
      using parse_value_empty_arr [of ws m rest] by (simp del: parse_value.simps)
  next
    case False
    let ?cs = "br (Suc d) @ layout_elems br sp (Suc d) xs @ br d @ CHR '']'' # rest"
    obtain c cs' where "layout_elems br sp (Suc d) xs @ br d @ CHR '']'' # rest = c # cs'"
      and "value_start c"
      using layout_elems_first [OF False] by blast
    then have s: "skip_space ?cs = c # cs'" and c: "c \<noteq> CHR '']''"
      by (simp_all add: skip_space_spaces [OF br] value_start_def)
    have "parse_elems m ?cs = Some (coerced_elems xs, rest)"
      by (rule "5.IH" [OF False m br br])
    with parse_value_arr [OF "5.prems"(2) s c, of m] False n show ?thesis
      by (simp del: parse_value.simps)
  qed
next
  case (6 ms)
  then obtain m where n: "n = Suc m" and m: "weight_members ms \<le> m" by (cases n) auto
  show ?case
  proof (cases "ms = []")
    case True
    with n "6.prems" show ?thesis
      using parse_value_empty_obj [of ws m rest] by (simp del: parse_value.simps)
  next
    case False
    let ?cs = "br (Suc d) @ layout_members br sp (Suc d) ms @ br d @ CHR ''}'' # rest"
    from False obtain k v ms' where ms: "ms = (k, v) # ms'"
      by (cases ms) auto
    have "\<exists>cs'. layout_members br sp (Suc d) ms @ br d @ CHR ''}'' # rest = CHR 0x22 # cs'"
      by (simp add: ms quote_def)
    then obtain cs' where "layout_members br sp (Suc d) ms @ br d @ CHR ''}'' # rest = CHR 0x22 # cs'"
      by blast
    then have s: "skip_space ?cs = CHR 0x22 # cs'"
      by (simp add: skip_space_spaces [OF br] is_space_def)
    have c: "CHR 0x22 \<noteq> CHR ''}''" by simp
    have "parse_members m ?cs = Some (coerced_members ms, rest)"
      by (rule "6.IH" [OF False m br br])
    with parse_value_obj [OF "6.prems"(2) s c, of m] False n show ?thesis
      by (simp del: parse_value.simps)
  qed
next
  case 7
  then show ?case by simp
next
  case (8 x xs)
  from "8.prems"(2) obtain m where n: "n = Suc m" and mx: "weight x \<le> m"
    and mxs: "weight_elems xs \<le> m"
    by (cases n) auto
  show ?case
  proof (cases "xs = []")
    case True
    have "parse_value m (ws @ layout br sp d x @ (ws' @ CHR '']'' # rest))
        = Some (coerced x, ws' @ CHR '']'' # rest)"
      by (rule "8.IH"(1) [OF mx "8.prems"(3)]) (simp add: delimited_close "8.prems"(4))
    with True n "8.prems"(4) show ?thesis
      by (simp add: skip_space_close del: parse_value.simps)
  next
    case False
    let ?T = "CHR '','' # br d @ layout_elems br sp d xs @ ws' @ CHR '']'' # rest"
    have "delimited ?T"
      using delimited_close [of "[]" "CHR '',''"] by (simp add: spaces_def)
    then have "parse_value m (ws @ layout br sp d x @ ?T) = Some (coerced x, ?T)"
      by (rule "8.IH"(1) [OF mx "8.prems"(3)])
    moreover have "parse_elems m (br d @ layout_elems br sp d xs @ ws' @ CHR '']'' # rest)
        = Some (coerced_elems xs, rest)"
      by (rule "8.IH"(2) [OF False mxs br "8.prems"(4)])
    ultimately show ?thesis
      using False n by (simp add: skip_space_comma del: parse_value.simps skip_space.simps)
  qed
next
  case 9
  then show ?case by simp
next
  case (10 k v ms)
  from "10.prems"(2) obtain m where n: "n = Suc m" and mv: "weight v \<le> m"
    and mms: "weight_members ms \<le> m"
    by (cases n) auto
  have key: "skip_space (ws @ quote k @ cs) = CHR 0x22 # escape k @ CHR 0x22 # cs" for cs
    using skip_space_start [OF "10.prems"(3), of "CHR 0x22"] by (simp add: quote_def is_space_def)
  have colon: "skip_space (CHR '':'' # cs) = CHR '':'' # cs" for cs
    by (simp add: is_space_def)
  show ?case
  proof (cases "ms = []")
    case True
    have "parse_value m (sp @ layout br sp d v @ (ws' @ CHR ''}'' # rest))
        = Some (coerced v, ws' @ CHR ''}'' # rest)"
      by (rule "10.IH"(1) [OF mv sp]) (simp add: delimited_close "10.prems"(4))
    with True n "10.prems"(4) show ?thesis
      by (simp add: key colon read_string_escape skip_space_close
          del: parse_value.simps skip_space.simps read_string.simps)
  next
    case False
    let ?T = "CHR '','' # br d @ layout_members br sp d ms @ ws' @ CHR ''}'' # rest"
    have "delimited ?T"
      using delimited_close [of "[]" "CHR '',''"] by (simp add: spaces_def)
    then have "parse_value m (sp @ layout br sp d v @ ?T) = Some (coerced v, ?T)"
      by (rule "10.IH"(1) [OF mv sp])
    moreover have "parse_members m (br d @ layout_members br sp d ms @ ws' @ CHR ''}'' # rest)
        = Some (coerced_members ms, rest)"
      by (rule "10.IH"(2) [OF False mms br "10.prems"(4)])
    ultimately show ?thesis
      using False n
      by (simp add: key colon read_string_escape skip_space_comma
          del: parse_value.simps skip_space.simps read_string.simps)
  qed
qed

lemma weight_le_length:
  "weight j \<le> length (layout br sp d j)"
  "weight_elems xs \<le> Suc (length (layout_elems br sp d xs))"
  "weight_members ms \<le> Suc (length (layout_members br sp d ms))"
proof (induction j and xs and ms arbitrary: d and d and d
    rule: weight_weight_elems_weight_members.induct)
  case (3 i)
  obtain c cs where "show_int i = c # cs"
    using show_int_first by blast
  then show ?case by simp
next
  case (5 xs)
  from "5.IH" [of "Suc d"] show ?case by simp
next
  case (6 ms)
  from "6.IH" [of "Suc d"] show ?case by simp
next
  case (8 x xs)
  from "8.IH"(1) [of d] "8.IH"(2) [of d] show ?case by (cases xs) simp_all
next
  case (10 k v ms)
  from "10.IH"(1) [of d] "10.IH"(2) [of d] show ?case by (cases ms) (simp_all add: quote_def)
qed (simp_all add: quote_def)

lemma json_parse_layout:
  assumes "\<And>d. spaces (br d)" and "spaces sp"
  shows "json_parse (layout br sp d j) = Some (coerced j)"
proof -
  have "parse_value (length (layout br sp d j)) ([] @ layout br sp d j @ []) = Some (coerced j, [])"
    by (rule parse_layout(1) [OF assms weight_le_length(1)]) (simp_all add: spaces_def delimited_def)
  then show ?thesis
    by (simp add: json_parse_def)
qed

lemma spaces_break: "spaces (break d)"
  by (simp add: spaces_def break_def is_space_def newline_def list_all_iff)

lemma json_parse_compact: "json_parse (compact j) = Some (coerced j)"
  unfolding compact_layout(1) [of j 0]
  by (rule json_parse_layout) (simp_all add: spaces_def)

lemma json_parse_indent: "json_parse (indent d j) = Some (coerced j)"
  unfolding indent_layout(1)
  by (rule json_parse_layout) (simp_all add: spaces_break, simp add: spaces_def is_space_def)

lemma hex_not_newline: "n < 16 \<Longrightarrow> hex n \<noteq> newline"
proof -
  assume "n < 16"
  then consider "n = 0" | "n = 1" | "n = 2" | "n = 3" | "n = 4" | "n = 5" | "n = 6" | "n = 7"
    | "n = 8" | "n = 9" | "n = 10" | "n = 11" | "n = 12" | "n = 13" | "n = 14" | "n = 15"
    by atomize_elim arith
  then show ?thesis
    by cases (simp_all add: hex_def newline_def)
qed

lemma escape_byte_no_newline: "newline \<notin> set (escape_byte c)"
proof -
  have "(of_char c :: nat) < 256" by simp
  then have "(of_char c :: nat) div 16 < 16" by arith
  then have "hex (of_char c div 16) \<noteq> newline" "hex (of_char c mod 16) \<noteq> newline"
    by (simp_all add: hex_not_newline)
  then show ?thesis
    by (auto simp: escape_byte_def newline_def)
qed

lemma escape_no_newline: "newline \<notin> set (escape s)"
proof (induction s rule: escape.induct)
  case 1
  show ?case by simp
next
  case (2 b bs)
  have h: "hex 8 \<noteq> newline" "hex 9 \<noteq> newline"
    by (simp_all add: hex_not_newline)
  have raw: "newline \<notin> set (take (rune_len (b # bs) - 1) bs)"
    if "rune_len (b # bs) \<noteq> 0" "\<not> (of_char b :: nat) < 0x80"
    using rune_len_bytes [OF refl, of b bs] that by (auto simp: newline_def)
  show ?case
    using "2.IH" h raw escape_byte_no_newline [of b]
    by (auto simp: newline_def)
qed

lemma quote_no_newline: "newline \<notin> set (quote s)"
  using escape_no_newline [of s] by (auto simp: quote_def newline_def)

lemma digit_no_newline: "d < 10 \<Longrightarrow> digit d \<noteq> newline"
  using digit_less_10 [of d] by (auto simp: is_digit_def newline_def)

lemma show_nat_no_newline: "newline \<notin> set (show_nat n)"
proof (induction n rule: show_nat.induct)
  case (1 n)
  have "digit (n mod 10) \<noteq> newline"
    by (rule digit_no_newline) simp
  with "1.IH" show ?case
    by (subst show_nat.simps) auto
qed

lemma show_int_no_newline: "newline \<notin> set (show_int i)"
  using show_nat_no_newline by (simp add: show_int_def newline_def)

lemma compact_no_newline:
  "newline \<notin> set (compact j)"
  "newline \<notin> set (compact_elems xs)"
  "newline \<notin> set (compact_members ms)"
proof (induction j and xs and ms rule: compact_compact_elems_compact_members.induct)
  case (3 i)
  show ?case using show_int_no_newline by simp
next
  case (4 s)
  show ?case using quote_no_newline by simp
next
  case (10 k v ms)
  then show ?case using quote_no_newline [of k] by (auto simp: newline_def)
qed (auto simp: newline_def)

lemma indented_newline: "indented s \<Longrightarrow> newline \<in> set s"
  by (induction s rule: indented.induct) auto

section \<open>The indentation of the readable text\<close>

lemma widths_plain: "newline \<notin> set s \<Longrightarrow> widths (s @ T) = widths T"
  by (induction s) auto

lemma takeWhile_replicate:
  "P x \<Longrightarrow> \<not> P c \<Longrightarrow> takeWhile P (replicate n x @ c # T) = replicate n x"
  by (induction n) simp_all

lemma widths_break:
  assumes "c \<noteq> CHR '' ''"
  shows "widths (break d @ c # T) = 2 * d # widths (c # T)"
proof -
  have "takeWhile (\<lambda>x. x = CHR '' '') (replicate (2 * d) (CHR '' '') @ c # T)
      = replicate (2 * d) (CHR '' '')"
    using assms by (intro takeWhile_replicate) simp_all
  moreover have "widths (replicate (2 * d) (CHR '' '') @ c # T) = widths (c # T)"
    by (rule widths_plain) (simp add: newline_def)
  ultimately show ?thesis
    by (simp add: break_def)
qed

lemma indent_first: "\<exists>c cs. indent d j = c # cs \<and> c \<noteq> CHR '' ''"
  using layout_first [of break "'' ''" d j]
  by (auto simp: indent_layout value_start_def is_space_def)

lemma widths_indent:
  "widths (indent d j @ T) = map (\<lambda>k. 2 * k) (depths d j) @ widths T"
  "widths (indent_elems d xs @ T) = map (\<lambda>k. 2 * k) (depths_elems d xs) @ widths T"
  "widths (indent_members d ms @ T) = map (\<lambda>k. 2 * k) (depths_members d ms) @ widths T"
proof (induction d j and d xs and d ms arbitrary: T and T and T
    rule: indent_indent_elems_indent_members.induct)
  case (1 d)
  show ?case using widths_plain [of "''null''" T] by (simp add: newline_def)
next
  case (2 d b)
  show ?case
    using widths_plain [of "''true''" T] widths_plain [of "''false''" T] by (simp add: newline_def)
next
  case (3 d i)
  show ?case by (simp add: widths_plain show_int_no_newline)
next
  case (4 d s)
  show ?case by (simp add: widths_plain quote_no_newline)
next
  case (5 d xs)
  show ?case
  proof (cases "xs = []")
    case True
    then show ?thesis using widths_plain [of "''[]''" T] by (simp add: newline_def)
  next
    case False
    then obtain x xs' where xs: "xs = x # xs'" by (cases xs) auto
    obtain c cs where c: "indent (Suc d) x = c # cs" and sp: "c \<noteq> CHR '' ''"
      using indent_first by blast
    let ?R = "break d @ CHR '']'' # T"
    have "indent_elems (Suc d) xs @ ?R = c # (cs
        @ (if xs' = [] then [] else '','' @ break (Suc d) @ indent_elems (Suc d) xs') @ ?R)"
      by (simp add: xs c)
    then have "widths (break (Suc d) @ indent_elems (Suc d) xs @ ?R)
        = 2 * Suc d # widths (indent_elems (Suc d) xs @ ?R)"
      using widths_break [OF sp] by simp
    also have "widths (indent_elems (Suc d) xs @ ?R)
        = map (\<lambda>k. 2 * k) (depths_elems (Suc d) xs) @ widths ?R"
      by (rule "5.IH" [OF False])
    also have "widths ?R = 2 * d # widths T"
      using widths_break [of "CHR '']''" d T] by (simp add: newline_def)
    finally show ?thesis
      using False by (simp add: newline_def)
  qed
next
  case (6 d ms)
  show ?case
  proof (cases "ms = []")
    case True
    then show ?thesis using widths_plain [of "''{}''" T] by (simp add: newline_def)
  next
    case False
    then obtain k v ms' where ms: "ms = (k, v) # ms'" by (cases ms) auto
    let ?R = "break d @ CHR ''}'' # T"
    have "\<exists>cs. indent_members (Suc d) ms @ ?R = CHR 0x22 # cs"
      by (simp add: ms quote_def)
    then obtain cs where "indent_members (Suc d) ms @ ?R = CHR 0x22 # cs"
      by blast
    then have "widths (break (Suc d) @ indent_members (Suc d) ms @ ?R)
        = 2 * Suc d # widths (indent_members (Suc d) ms @ ?R)"
      using widths_break [of "CHR 0x22" "Suc d" cs] by simp
    also have "widths (indent_members (Suc d) ms @ ?R)
        = map (\<lambda>k. 2 * k) (depths_members (Suc d) ms) @ widths ?R"
      by (rule "6.IH" [OF False])
    also have "widths ?R = 2 * d # widths T"
      using widths_break [of "CHR ''}''" d T] by (simp add: newline_def)
    finally show ?thesis
      using False by (simp add: newline_def)
  qed
next
  case (7 d)
  show ?case by simp
next
  case (8 d x xs)
  show ?case
  proof (cases "xs = []")
    case True
    then show ?thesis using "8.IH"(1) [of T] by simp
  next
    case False
    then obtain y ys where xs: "xs = y # ys" by (cases xs) auto
    obtain c cs where c: "indent d y = c # cs" and sp: "c \<noteq> CHR '' ''"
      using indent_first by blast
    let ?R = "CHR '','' # break d @ indent_elems d xs @ T"
    have "indent_elems d xs @ T
        = c # (cs @ (if ys = [] then [] else '','' @ break d @ indent_elems d ys) @ T)"
      by (simp add: xs c)
    then have "widths (break d @ indent_elems d xs @ T) = 2 * d # widths (indent_elems d xs @ T)"
      using widths_break [OF sp] by simp
    then have "widths ?R = 2 * d # map (\<lambda>k. 2 * k) (depths_elems d xs) @ widths T"
      using "8.IH"(2) [OF False, of T] by (simp add: newline_def)
    moreover have "widths (indent d x @ ?R) = map (\<lambda>k. 2 * k) (depths d x) @ widths ?R"
      by (rule "8.IH"(1))
    ultimately show ?thesis
      using False by simp
  qed
next
  case (9 d)
  show ?case by simp
next
  case (10 d k v ms)
  have head: "widths (quote k @ '': '' @ U) = widths U" for U
    using widths_plain [of "quote k @ '': ''" U] quote_no_newline [of k]
    by (simp add: newline_def)
  show ?case
  proof (cases "ms = []")
    case True
    then show ?thesis using "10.IH"(1) [of T] head [of "indent d v @ T"] by simp
  next
    case False
    then obtain k' v' ms' where ms: "ms = (k', v') # ms'" by (cases ms) auto
    let ?R = "CHR '','' # break d @ indent_members d ms @ T"
    have "\<exists>cs. indent_members d ms @ T = CHR 0x22 # cs"
      by (simp add: ms quote_def)
    then obtain cs where "indent_members d ms @ T = CHR 0x22 # cs"
      by blast
    then have "widths (break d @ indent_members d ms @ T) = 2 * d # widths (indent_members d ms @ T)"
      using widths_break [of "CHR 0x22" d cs] by simp
    then have "widths ?R = 2 * d # map (\<lambda>k. 2 * k) (depths_members d ms) @ widths T"
      using "10.IH"(2) [OF False, of T] by (simp add: newline_def)
    moreover have "widths (indent d v @ ?R) = map (\<lambda>k. 2 * k) (depths d v) @ widths ?R"
      by (rule "10.IH"(1))
    ultimately show ?thesis
      using False head [of "indent d v @ ?R"] by simp
  qed
qed

lemma widths_compact: "widths (compact j) = []"
  using widths_plain [OF compact_no_newline(1), of j "[]"] by simp

section \<open>The serializer on an aggregate\<close>

lemma map_fst_coerced_members: "map fst (coerced_members ms) = map (\<lambda>p. coerce_utf8 (fst p)) ms"
  by (induction ms) auto

lemma coerced_members_append:
  "coerced_members (ms @ ms') = coerced_members ms @ coerced_members ms'"
  by (induction ms) auto

lemma doc_keys_coerced: "doc_keys (coerced (jsonData_doc d)) = doc_keys (jsonData_doc d)"
  by (simp add: doc_keys_def jsonData_doc_def omitempty_slice_def omitempty_map_def
      coerced_members_append)

lemma serialized_text:
  "serialized r d = Inr (if r then indent 0 (jsonData_doc d) else compact (jsonData_doc d))"
  by (simp add: serialized_def json_Marshal_def json_MarshalIndent_def)

lemma indent_nonempty:
  assumes "doc_keys (jsonData_doc d) \<noteq> []"
  shows "indented (indent 0 (jsonData_doc d))"
proof -
  obtain ms where ms: "jsonData_doc d = JObj ms"
    by (simp add: jsonData_doc_def)
  with assms obtain k v ms' where "ms = (k, v) # ms'"
    by (cases ms) (auto simp: doc_keys_def)
  with ms show ?thesis
    by (simp add: break_def quote_def numeral_2_eq_2)
qed

lemma jsonData_doc_empty:
  assumes "doc_keys (jsonData_doc d) = []"
  shows "jsonData_doc d = JObj []"
proof -
  obtain ms where ms: "jsonData_doc d = JObj ms"
    by (simp add: jsonData_doc_def)
  with assms show ?thesis
    by (simp add: doc_keys_def)
qed

lemma populated_untouched:
  assumes "export_loop a g names new_jsonData w = Return exp w'"
  shows "set (populated exp) \<subseteq> set names"
  using export_loop_untouched [OF assms]
  by (auto simp: populated_def new_jsonData_def split: if_splits)

section \<open>Both actions at once\<close>

lemma program_both_actions:
  assumes "Import fl" and "Export fl"
  shows "fst (program a fl) = 1
       \<and> calls (snd (program a fl)) = []
       \<and> stdout (snd (program a fl)) = []
       \<and> (if Version fl
          then stderr (snd (program a fl)) = [Fprintf (''Version: '' @ version @ [newline])]
          else usage_printed (snd (program a fl)))"
  using assms
  by (simp add: program_def init_def showUsage_def world0_def usage_printed_def usage_text_def
      Let_def)

lemma flag_parse_both_actions:
  "flag_parse flags0 both_actions_args = (both_actions_flags, Parsed)"
  by (simp add: both_actions_args_def flags0_def both_actions_flags_def sample_flags_def
      bool_flag_def string_flag_def set_bool_def set_string_def)

lemma flag_parse_version:
  "flag_parse flags0 version_args = (version_flags, Parsed)"
  by (simp add: version_args_def both_actions_args_def flags0_def version_flags_def
      both_actions_flags_def sample_flags_def bool_flag_def string_flag_def set_bool_def
      set_string_def)

lemma flag_parse_undefined_flag:
  "flag_parse flags0 undefined_flag_args =
     (flags0\<lparr>Import := True, Export := True\<rparr>, Failed (NotDefined ''bogus''))"
  by (simp add: undefined_flag_args_def flags0_def bool_flag_def string_flag_def set_bool_def
      strconv_ParseBool_def)

lemma flag_parse_help:
  "flag_parse flags0 help_args = (flags0\<lparr>Import := True, Export := True\<rparr>, HelpWanted)"
  by (simp add: help_args_def flags0_def bool_flag_def string_flag_def set_bool_def)

section \<open>The claims\<close>

text \<open>
  C1. On flags \<^verbatim>\<open>init\<close> accepts for an export, and once the client exists: a requested
  name outside the registry only adds the warning that names it to standard error, and
  the loop goes on with the names after it. When every list call a requested name stands
  for succeeds, the process exits 0, has written one warning per unregistered name after
  its three log lines, and its output is the serialized aggregate of all the requested
  registered names. When any of these calls fails, the whole run is aborted at the first
  that does: the process exits 1 with nothing on standard output, the last line on
  standard error is the error of that call, after the three log lines and the warnings
  for the unregistered names before the failing one, and the calls issued are those of
  the names up to the failing one, so that no name after it is called or warned about.
\<close>

theorem unknown_name_warns_fetch_failure_aborts:
  assumes "init fl world0 = Return g w0"
    and "client a fl = Some svc"
  shows "(if \<forall>n\<in>set (requested fl). fetch_error a svc (Flags.Project fl) n = None
          then fst (program a fl) = 0
               \<and> stderr (snd (program a fl)) =
                   banner (requested fl)
                     @ map warning (filter (\<lambda>n. services_Export n = None) (requested fl))
               \<and> serialized (Readable fl)
                     (fetched a svc (Flags.Project fl) (set (requested fl)) new_jsonData)
                   = Inr (stdout (snd (program a fl)))
          else fst (program a fl) = 1
               \<and> (\<exists>e. fetch_error a svc (Flags.Project fl)
                          (first_failure a svc (Flags.Project fl) (requested fl)) = Some e
                      \<and> snd (program a fl) =
                          \<lparr>stderr = banner (requested fl)
                             @ map warning (filter (\<lambda>n. services_Export n = None)
                                 (before_failure a svc (Flags.Project fl) (requested fl)))
                             @ [Log e],
                           stdout = [],
                           calls = [Call_NewSDKConfig (Flags.Account fl), Call_compute_New]
                             @ List.map_filter (call_of (Flags.Project fl))
                                 (before_failure a svc (Flags.Project fl) (requested fl)
                                    @ [first_failure a svc (Flags.Project fl) (requested fl)])\<rparr>))
       \<and> (services_Export n = None \<longrightarrow>
            export_loop a g' (n # rest) exp w =
              export_loop a g' rest exp (w\<lparr>stderr := stderr w @ [warning n]\<rparr>))"
proof -
  have step: "services_Export n = None \<longrightarrow>
            export_loop a g' (n # rest) exp w =
              export_loop a g' rest exp (w\<lparr>stderr := stderr w @ [warning n]\<rparr>)"
    by (simp add: log_Printf_def warning_def)
  have unknown: "(\<lambda>n. services_Export n = None) = (\<lambda>n. \<not> known n)"
    by (simp add: services_Export_None)
  show ?thesis
  proof (cases "\<forall>n\<in>set (requested fl). fetch_error a svc (Flags.Project fl) n = None")
    case True
    with program_ok [OF assms True] step show ?thesis
      by (simp add: unknown serialized_text)
  next
    case False
    from first_failure_split [OF False] obtain post e
      where names: "requested fl = before_failure a svc (Flags.Project fl) (requested fl)
               @ first_failure a svc (Flags.Project fl) (requested fl) # post"
        and ok: "\<forall>m\<in>set (before_failure a svc (Flags.Project fl) (requested fl)).
               fetch_error a svc (Flags.Project fl) m = None"
        and bad: "fetch_error a svc (Flags.Project fl)
               (first_failure a svc (Flags.Project fl) (requested fl)) = Some e"
      by blast
    from program_abort [OF assms names ok bad] bad False step show ?thesis
      by (simp add: unknown)
  qed
qed

theorem unknown_name_warns_fetch_failure_aborts_witness:
  "fst (program sample_api mixed_flags) = 0
   \<and> stderr (snd (program sample_api mixed_flags)) =
       banner [''firewalls'', ''bogus'', ''addresses''] @ [warning ''bogus'']
   \<and> program failing_api aborting_flags =
       (1, \<lparr>stderr = banner [''bogus'', ''firewalls'', ''networks'', ''routes'', ''mystery'']
                @ [warning ''bogus'', Log ''googleapi: Error 403: Forbidden''],
            stdout = [],
            calls = [Call_NewSDKConfig ''me'', Call_compute_New,
                     Call_Firewalls_List ''demo'', Call_Networks_List ''demo'']\<rparr>)"
proof -
  have i1: "init mixed_flags world0 =
      Return \<lparr>flags = mixed_flags,
              config = \<lparr>Config.Service = [''firewalls'', ''bogus'', ''addresses''],
                        Config.Account = ''me'', Action_Import = False, Action_Export = True,
                        Config.Project = ''demo'', Config.Region = []\<rparr>,
              service = None\<rparr> world0"
    by (simp add: init_def mixed_flags_def sample_flags_def config0_def)
  have c1: "client sample_api mixed_flags = Some (ComputeService ''client'')"
    by (simp add: client_def sample_api_def mixed_flags_def sample_flags_def)
  have r1: "requested mixed_flags = [''firewalls'', ''bogus'', ''addresses'']"
    by (simp add: requested_def mixed_flags_def sample_flags_def)
  have ok1: "\<forall>n\<in>set (requested mixed_flags).
      fetch_error sample_api (ComputeService ''client'') (Flags.Project mixed_flags) n = None"
    by (simp add: r1 fetch_error_def sample_api_def)
  have i2: "init aborting_flags world0 =
      Return \<lparr>flags = aborting_flags,
              config = \<lparr>Config.Service = [''bogus'', ''firewalls'', ''networks'', ''routes'', ''mystery''],
                        Config.Account = ''me'', Action_Import = False, Action_Export = True,
                        Config.Project = ''demo'', Config.Region = []\<rparr>,
              service = None\<rparr> world0"
    by (simp add: init_def aborting_flags_def sample_flags_def config0_def)
  have c2: "client failing_api aborting_flags = Some (ComputeService ''client'')"
    by (simp add: client_def failing_api_def sample_api_def aborting_flags_def sample_flags_def)
  have r2: "requested aborting_flags = [''bogus'', ''firewalls'', ''networks'', ''routes'', ''mystery'']"
    by (simp add: requested_def aborting_flags_def sample_flags_def)
  have p2: "Flags.Project aborting_flags = ''demo''" and a2: "Flags.Account aborting_flags = ''me''"
    by (simp_all add: aborting_flags_def sample_flags_def)
  have f2: "fetch_error failing_api (ComputeService ''client'') ''demo'' n =
      (if n = ''networks'' then Some ''googleapi: Error 403: Forbidden'' else None)" for n
    by (simp add: fetch_error_def failing_api_def sample_api_def)
  have bad2: "\<not> (\<forall>n\<in>set (requested aborting_flags).
      fetch_error failing_api (ComputeService ''client'') (Flags.Project aborting_flags) n = None)"
    by (simp add: r2 p2 f2)
  have b2: "before_failure failing_api (ComputeService ''client'') ''demo''
      [''bogus'', ''firewalls'', ''networks'', ''routes'', ''mystery''] = [''bogus'', ''firewalls'']"
    by (simp add: before_failure_def f2)
  have n2: "first_failure failing_api (ComputeService ''client'') ''demo''
      [''bogus'', ''firewalls'', ''networks'', ''routes'', ''mystery''] = ''networks''"
    by (simp add: first_failure_def f2)
  from unknown_name_warns_fetch_failure_aborts [OF i1 c1] ok1
  have "fst (program sample_api mixed_flags) = 0
   \<and> stderr (snd (program sample_api mixed_flags)) =
       banner (requested mixed_flags)
         @ map warning (filter (\<lambda>n. services_Export n = None) (requested mixed_flags))"
    by simp
  moreover from unknown_name_warns_fetch_failure_aborts [OF i2 c2] bad2
  have "fst (program failing_api aborting_flags) = 1
    \<and> snd (program failing_api aborting_flags) =
       \<lparr>stderr = banner [''bogus'', ''firewalls'', ''networks'', ''routes'', ''mystery'']
                @ [warning ''bogus'', Log ''googleapi: Error 403: Forbidden''],
        stdout = [],
        calls = [Call_NewSDKConfig ''me'', Call_compute_New,
                 Call_Firewalls_List ''demo'', Call_Networks_List ''demo'']\<rparr>"
    by (simp add: r2 p2 a2 b2 n2 f2 services_Export_def List.map_filter_simps call_of_def)
  ultimately show ?thesis
    by (simp add: r1 services_Export_def prod_eq_iff)
qed

text \<open>
  C2. When the loop over the requested names has returned an aggregate, both
  serializations succeed, both are read back as the document of the aggregate (its
  strings coerced to valid UTF-8, which leaves the keys of the document as they are), and
  every key of that document is one of the requested names: a kind whose exporter was
  not invoked has no key at all, neither with \<^verbatim>\<open>null\<close> nor with an empty list. When only
  \<^verbatim>\<open>firewalls\<close> was requested, \<^verbatim>\<open>routes\<close>, \<^verbatim>\<open>networks\<close> and \<^verbatim>\<open>addresses\<close> are therefore
  not keys.
\<close>

theorem unrequested_kinds_omitted:
  assumes "export_loop a g names new_jsonData w = Return exp w'"
  shows "\<exists>c r. json_Marshal exp = Inr c \<and> json_MarshalIndent exp = Inr r
           \<and> json_parse c = Some (coerced (jsonData_doc exp))
           \<and> json_parse r = Some (coerced (jsonData_doc exp))
           \<and> doc_keys (coerced (jsonData_doc exp)) = doc_keys (jsonData_doc exp)
           \<and> set (doc_keys (jsonData_doc exp)) \<subseteq> set names"
proof -
  from populated_untouched [OF assms] doc_keys_jsonData [of exp]
  have "set (doc_keys (jsonData_doc exp)) \<subseteq> set names"
    by blast
  then show ?thesis
    by (simp add: json_Marshal_def json_MarshalIndent_def json_parse_compact json_parse_indent
        doc_keys_coerced)
qed

theorem unrequested_kinds_omitted_witness:
  "\<exists>exp w' c r.
      export_loop sample_api sample_globals [''firewalls''] new_jsonData world0 = Return exp w'
    \<and> json_Marshal exp = Inr c \<and> json_MarshalIndent exp = Inr r
    \<and> json_parse c = Some (coerced (jsonData_doc exp))
    \<and> json_parse r = Some (coerced (jsonData_doc exp))
    \<and> doc_keys (coerced (jsonData_doc exp)) = doc_keys (jsonData_doc exp)
    \<and> ''routes'' \<notin> set (doc_keys (jsonData_doc exp))
    \<and> ''networks'' \<notin> set (doc_keys (jsonData_doc exp))
    \<and> ''addresses'' \<notin> set (doc_keys (jsonData_doc exp))"
proof -
  obtain exp w' where
    r: "export_loop sample_api sample_globals [''firewalls''] new_jsonData world0 = Return exp w'"
    by (simp add: services_Export_def exportFirewalls_def sample_globals_def sample_api_def)
  from unrequested_kinds_omitted [OF r] obtain c r' where
    "json_Marshal exp = Inr c" and "json_MarshalIndent exp = Inr r'"
    and "json_parse c = Some (coerced (jsonData_doc exp))"
    and "json_parse r' = Some (coerced (jsonData_doc exp))"
    and "doc_keys (coerced (jsonData_doc exp)) = doc_keys (jsonData_doc exp)"
    and "set (doc_keys (jsonData_doc exp)) \<subseteq> {''firewalls''}"
    by auto
  with r show ?thesis by auto
qed

text \<open>
  C3. Whatever aggregated list the call answers with, \<^verbatim>\<open>exportAddresses\<close> stores a map
  whose keys are exactly the zones and regions of the response that have at least one
  address, each with its addresses; a zone or region with zero addresses is not a key.
\<close>

theorem exportAddresses_nonempty_scopes:
  assumes "service g = Some svc"
    and "Addresses_AggregatedList a svc (Config.Project (config g)) = Inr items"
    and "gomap_ok items"
  shows "\<exists>m w'. exportAddresses a g exp w = Return (exp\<lparr>jsonData.Addresses := Some m\<rparr>) w'
           \<and> gomap_ok m
           \<and> fst ` set m =
               {k. \<exists>v. map_of items k = Some v \<and> 0 < len (AddressesScopedList.Addresses v)}
           \<and> (\<forall>k. map_of m k =
                 (case map_of items k of
                    None \<Rightarrow> None
                  | Some v \<Rightarrow> if 0 < len (AddressesScopedList.Addresses v)
                              then Some (AddressesScopedList.Addresses v) else None))"
proof -
  let ?m = "range_Items items []"
  from assms(3) have d: "distinct (map fst items)"
    by (simp add: gomap_ok_def)
  have look: "map_of ?m k =
      (case map_of items k of
         None \<Rightarrow> None
       | Some v \<Rightarrow> if 0 < len (AddressesScopedList.Addresses v)
                   then Some (AddressesScopedList.Addresses v) else None)" for k
    by (simp add: range_Items_lookup [OF d] split: option.splits)
  have "fst ` set ?m = dom (map_of ?m)"
    by (simp add: dom_map_of_conv_image_fst)
  also have "\<dots> = {k. \<exists>v. map_of items k = Some v \<and> 0 < len (AddressesScopedList.Addresses v)}"
    by (auto simp: dom_def look split: option.splits if_splits)
  finally have keys: "fst ` set ?m =
      {k. \<exists>v. map_of items k = Some v \<and> 0 < len (AddressesScopedList.Addresses v)}" .
  have ok: "gomap_ok ?m"
    using range_Items_distinct [of "[]" items] by (simp add: gomap_ok_def)
  have run: "exportAddresses a g exp w =
      Return (exp\<lparr>jsonData.Addresses := Some ?m\<rparr>)
        (request (Call_Addresses_AggregatedList (Config.Project (config g))) w)"
    using assms(1,2) by (simp add: exportAddresses_def)
  from run ok keys look show ?thesis by blast
qed

text \<open>The response of the sample project: one scope without addresses, one with two.\<close>

lemma exportAddresses_sample:
  "exportAddresses sample_api sample_globals new_jsonData world0 =
     Return (new_jsonData\<lparr>jsonData.Addresses :=
               Some [(''regions/b'', Some [JObj [(''name'', JStr ''ip-1'')],
                                            JObj [(''name'', JStr ''ip-2'')]])]\<rparr>)
            (world0\<lparr>calls := [Call_Addresses_AggregatedList ''demo'']\<rparr>)"
  by (simp add: exportAddresses_def sample_api_def sample_globals_def sample_items_def
      request_def world0_def len_def)

theorem exportAddresses_nonempty_scopes_witness:
  "service sample_globals = Some (ComputeService ''client'')
   \<and> Addresses_AggregatedList sample_api (ComputeService ''client'')
        (Config.Project (config sample_globals)) = Inr sample_items
   \<and> gomap_ok sample_items
   \<and> (\<exists>m w'. exportAddresses sample_api sample_globals new_jsonData world0 =
          Return (new_jsonData\<lparr>jsonData.Addresses := Some m\<rparr>) w'
        \<and> gomap_ok m
        \<and> fst ` set m =
            {k. \<exists>v. map_of sample_items k = Some v \<and> 0 < len (AddressesScopedList.Addresses v)}
        \<and> (\<forall>k. map_of m k =
              (case map_of sample_items k of
                 None \<Rightarrow> None
               | Some v \<Rightarrow> if 0 < len (AddressesScopedList.Addresses v)
                           then Some (AddressesScopedList.Addresses v) else None)))"
proof -
  have h1: "service sample_globals = Some (ComputeService ''client'')"
    by (simp add: sample_globals_def)
  have h2: "Addresses_AggregatedList sample_api (ComputeService ''client'')
        (Config.Project (config sample_globals)) = Inr sample_items"
    by (simp add: sample_api_def)
  have h3: "gomap_ok sample_items"
    by (simp add: gomap_ok_def sample_items_def)
  from exportAddresses_nonempty_scopes [OF h1 h2 h3, of new_jsonData world0] h1 h2 h3
  show ?thesis by blast
qed

text \<open>
  C4 (as amended). When every requested name is registered and the loop has returned,
  each field of a requested kind holds what its list call answered (for addresses, the
  map of the non-empty scopes) and every other field is nil; the populated fields are
  distinct, one for each requested name whose call did not answer with nil items; and
  the loop returns the same aggregate on every list with the same names, in particular
  on every permutation of the request.
\<close>

theorem requested_fields_hold_fetch_results:
  assumes "service g = Some svc"
    and "\<forall>n\<in>set names. services_Export n \<noteq> None"
    and "export_loop a g names new_jsonData w = Return exp w'"
    and "set names' = set names"
  shows "exp = fetched a svc (Config.Project (config g)) (set names) new_jsonData
       \<and> distinct (populated exp)
       \<and> set (populated exp) =
           {n \<in> set names. \<not> fetched_nil a svc (Config.Project (config g)) n}
       \<and> (\<exists>w''. export_loop a g names' new_jsonData w = Return exp w'')"
proof -
  note ok = export_loop_Return_ok [OF assms(1,3)]
  from export_loop_ok [OF assms(1) ok, of new_jsonData w] assms(3)
  have e: "exp = fetched a svc (Config.Project (config g)) (set names) new_jsonData"
    by simp
  from ok assms(4)
  have ok': "\<forall>n\<in>set names'. fetch_error a svc (Config.Project (config g)) n = None"
    by simp
  from export_loop_ok [OF assms(1) ok', of new_jsonData w] e assms(4)
  have p: "\<exists>w''. export_loop a g names' new_jsonData w = Return exp w''"
    by simp
  have d: "distinct (populated exp)"
    by (simp add: populated_def)
  from assms(2) have k: "\<forall>n\<in>set names. known n"
    by (simp add: services_Export_None)
  have "n \<in> set (populated exp) \<longleftrightarrow>
      n \<in> set names \<and> \<not> fetched_nil a svc (Config.Project (config g)) n" for n
  proof (cases "n \<in> set names")
    case False
    with populated_untouched [OF assms(3)] show ?thesis by blast
  next
    case True
    with ok k have "fetch_error a svc (Config.Project (config g)) n = None" and "known n"
      by simp_all
    with True show ?thesis
      unfolding e
      by (auto simp: populated_def fetched_def fetched_nil_def known_def fetch_error_def
          split: sum.splits if_splits)
  qed
  then have s: "set (populated exp) =
      {n \<in> set names. \<not> fetched_nil a svc (Config.Project (config g)) n}"
    by blast
  from e d s p show ?thesis by blast
qed

text \<open>
  The claim as stated fails when a list call answers without items: \<^verbatim>\<open>routes\<close> is
  registered and requested from the sample project, the call succeeds, and no field of
  the aggregate is populated.
\<close>

theorem nil_items_leave_field_unpopulated:
  "service sample_globals = Some (ComputeService ''client'')
   \<and> services_Export ''routes'' \<noteq> None
   \<and> export_loop sample_api sample_globals [''routes''] new_jsonData world0 =
       Return new_jsonData (world0\<lparr>calls := [Call_Routes_List ''demo'']\<rparr>)
   \<and> populated new_jsonData = []
   \<and> set (populated new_jsonData) \<noteq> set [''routes'']"
  by (simp add: sample_globals_def services_Export_def exportRoutes_def sample_api_def
      new_jsonData_def populated_def request_def world0_def)

theorem requested_fields_hold_fetch_results_witness:
  "\<exists>exp w' w''.
      export_loop sample_api sample_globals [''networks'', ''firewalls''] new_jsonData world0
        = Return exp w'
    \<and> export_loop sample_api sample_globals [''firewalls'', ''networks''] new_jsonData world0
        = Return exp w''
    \<and> exp = fetched sample_api (ComputeService ''client'') ''demo''
              {''networks'', ''firewalls''} new_jsonData
    \<and> distinct (populated exp)
    \<and> set (populated exp) = {''networks'', ''firewalls''}"
proof -
  have s: "service sample_globals = Some (ComputeService ''client'')"
    by (simp add: sample_globals_def)
  have k: "\<forall>n\<in>set [''networks'', ''firewalls'']. services_Export n \<noteq> None"
    by (simp add: services_Export_def)
  obtain exp w' where
    r: "export_loop sample_api sample_globals [''networks'', ''firewalls''] new_jsonData world0
          = Return exp w'"
    by (simp add: services_Export_def exportFirewalls_def exportNetworks_def sample_globals_def
        sample_api_def)
  have p: "set [''firewalls'', ''networks''] = set [''networks'', ''firewalls'']"
    by auto
  have n: "{n \<in> set [''networks'', ''firewalls''].
        \<not> fetched_nil sample_api (ComputeService ''client'') (Config.Project (config sample_globals)) n}
      = {''networks'', ''firewalls''}"
    by (auto simp: fetched_nil_def sample_api_def)
  from requested_fields_hold_fetch_results [OF s k r p] r show ?thesis
    unfolding n by (auto simp: sample_globals_def)
qed

text \<open>
  C5 (as amended). For every aggregate both serializations succeed, and the readable
  and the compact output are read back as the same document, the one of the aggregate
  with its strings coerced to valid UTF-8. The compact output has no line break and so
  no indentation. In the readable output every line after the first starts with exactly
  two spaces for each level of nesting at which it stands, and with nothing else. The
  readable output has line breaks when the document has at least one key, its second
  line then starting with exactly two spaces; when the document has no key (nothing was
  fetched, or only empty collections), both outputs are the two bytes \<^verbatim>\<open>{}\<close>.
\<close>

theorem readable_and_compact_same_document:
  "\<exists>r c. json_MarshalIndent d = Inr r \<and> json_Marshal d = Inr c
     \<and> json_parse r = Some (coerced (jsonData_doc d))
     \<and> json_parse c = Some (coerced (jsonData_doc d))
     \<and> newline \<notin> set c
     \<and> \<not> indented c
     \<and> widths c = []
     \<and> widths r = map (\<lambda>k. 2 * k) (depths 0 (jsonData_doc d))
     \<and> (if doc_keys (jsonData_doc d) = []
        then r = ''{}'' \<and> c = ''{}''
        else newline \<in> set r \<and> indented r \<and> hd (widths r) = 2)"
proof -
  let ?r = "indent 0 (jsonData_doc d)" and ?c = "compact (jsonData_doc d)"
  have n: "newline \<notin> set ?c"
    by (rule compact_no_newline)
  then have i: "\<not> indented ?c"
    using indented_newline by blast
  have e: "?r = ''{}'' \<and> ?c = ''{}''" if "doc_keys (jsonData_doc d) = []"
    using jsonData_doc_empty [OF that] by simp
  have w: "widths ?r = map (\<lambda>k. 2 * k) (depths 0 (jsonData_doc d))"
    using widths_indent(1) [of 0 "jsonData_doc d" "[]"] by simp
  have wc: "widths ?c = []"
    by (rule widths_compact)
  have f: "newline \<in> set ?r \<and> indented ?r \<and> hd (widths ?r) = 2"
    if "doc_keys (jsonData_doc d) \<noteq> []"
  proof -
    obtain ms where ms: "jsonData_doc d = JObj ms"
      by (simp add: jsonData_doc_def)
    with that have "ms \<noteq> []"
      by (auto simp: doc_keys_def)
    then have "hd (widths ?r) = 2"
      unfolding w by (simp add: ms)
    with indent_nonempty [OF that] indented_newline show ?thesis
      by blast
  qed
  have "json_parse ?r = Some (coerced (jsonData_doc d))"
    and "json_parse ?c = Some (coerced (jsonData_doc d))"
    by (rule json_parse_indent, rule json_parse_compact)
  with n i e f w wc show ?thesis
    by (simp add: json_Marshal_def json_MarshalIndent_def)
qed

theorem readable_and_compact_same_document_witness:
  "\<exists>r c. json_MarshalIndent (new_jsonData\<lparr>Firewalls := Some [JObj [(''name'', JStr ''allow-ssh'')]]\<rparr>) = Inr r
     \<and> json_Marshal (new_jsonData\<lparr>Firewalls := Some [JObj [(''name'', JStr ''allow-ssh'')]]\<rparr>) = Inr c
     \<and> json_parse r = json_parse c
     \<and> json_parse c =
         Some (JObj [(''firewalls'', JArr [JObj [(''name'', JStr ''allow-ssh'')]])])
     \<and> newline \<notin> set c \<and> \<not> indented c \<and> widths c = []
     \<and> newline \<in> set r \<and> indented r \<and> widths r = [2, 4, 6, 4, 2, 0]"
proof -
  let ?d = "new_jsonData\<lparr>Firewalls := Some [JObj [(''name'', JStr ''allow-ssh'')]]\<rparr>"
  have d: "jsonData_doc ?d = JObj [(''firewalls'', JArr [JObj [(''name'', JStr ''allow-ssh'')]])]"
    by (simp add: jsonData_doc_def new_jsonData_def omitempty_slice_def omitempty_map_def
        encode_slice_def len_def)
  then have k: "doc_keys (jsonData_doc ?d) \<noteq> []"
    by (simp add: doc_keys_def)
  from readable_and_compact_same_document [of ?d] k show ?thesis
    unfolding d by auto
qed

text \<open>
  The claim as stated fails on the aggregate of a run that fetched nothing: its readable
  output has no line break.
\<close>

theorem readable_empty_aggregate_no_newline:
  "json_MarshalIndent new_jsonData = Inr ''{}''
   \<and> newline \<notin> set ''{}''
   \<and> \<not> indented ''{}''"
  by (simp add: json_MarshalIndent_def jsonData_doc_def new_jsonData_def omitempty_slice_def
      omitempty_map_def len_def newline_def)

text \<open>Such a run: \<^verbatim>\<open>-export -readable -service=routes\<close> on a project without routes.\<close>

lemma readable_run_without_items:
  "program sample_api routes_flags =
     (0, \<lparr>stderr = banner [''routes''], stdout = ''{}'',
          calls = [Call_NewSDKConfig ''me'', Call_compute_New, Call_Routes_List ''demo'']\<rparr>)"
proof -
  have i: "init routes_flags world0 =
      Return \<lparr>flags = routes_flags,
              config = \<lparr>Config.Service = [''routes''], Config.Account = ''me'',
                        Action_Import = False, Action_Export = True,
                        Config.Project = ''demo'', Config.Region = []\<rparr>,
              service = None\<rparr> world0"
    by (simp add: init_def routes_flags_def sample_flags_def config0_def)
  have c: "client sample_api routes_flags = Some (ComputeService ''client'')"
    by (simp add: client_def sample_api_def routes_flags_def sample_flags_def)
  have ok: "\<forall>n\<in>set (requested routes_flags).
      fetch_error sample_api (ComputeService ''client'') (Flags.Project routes_flags) n = None"
    by (simp add: requested_def routes_flags_def sample_flags_def fetch_error_def sample_api_def)
  show ?thesis
    unfolding program_ok [OF i c ok]
    by (simp add: requested_def routes_flags_def sample_flags_def known_def call_of_def
        List.map_filter_simps fetched_def sample_api_def new_jsonData_def
        jsonData_doc_def omitempty_slice_def omitempty_map_def len_def)
qed

text \<open>
  C6. A run in which a list call of a requested name fails exits 1 and has written
  nothing to standard output. In general a run ends in one of two ways: it exits 1 with
  nothing on standard output, or it exits 0, every list call of a requested name has
  succeeded, and standard output holds exactly one document, the serialized aggregate of
  all the requested kinds.
\<close>

theorem no_partial_output:
  "(init fl world0 = Return g w0 \<and> client a fl = Some svc \<and> n \<in> set (requested fl)
      \<and> fetch_error a svc (Flags.Project fl) n = Some e
    \<longrightarrow> fst (program a fl) = 1 \<and> stdout (snd (program a fl)) = [])
   \<and> ((fst (program a fl) = 1 \<and> stdout (snd (program a fl)) = [])
      \<or> (fst (program a fl) = 0
         \<and> (\<exists>svc'. client a fl = Some svc'
               \<and> (\<forall>n\<in>set (requested fl). fetch_error a svc' (Flags.Project fl) n = None)
               \<and> serialized (Readable fl)
                     (fetched a svc' (Flags.Project fl) (set (requested fl)) new_jsonData)
                   = Inr (stdout (snd (program a fl))))))"
proof -
  have fail: "init fl world0 = Return g w0 \<and> client a fl = Some svc \<and> n \<in> set (requested fl)
      \<and> fetch_error a svc (Flags.Project fl) n = Some e
    \<longrightarrow> fst (program a fl) = 1 \<and> stdout (snd (program a fl)) = []"
    using program_fetch_fails [of fl g w0 a svc n e] by auto
  have either: "(fst (program a fl) = 1 \<and> stdout (snd (program a fl)) = [])
      \<or> (fst (program a fl) = 0
         \<and> (\<exists>svc'. client a fl = Some svc'
               \<and> (\<forall>n\<in>set (requested fl). fetch_error a svc' (Flags.Project fl) n = None)
               \<and> serialized (Readable fl)
                     (fetched a svc' (Flags.Project fl) (set (requested fl)) new_jsonData)
                   = Inr (stdout (snd (program a fl)))))"
  proof (cases "init fl world0")
    case (Exit k w)
    from program_init_Exit [OF this, of a] show ?thesis by simp
  next
    case (Return g1 w1)
    show ?thesis
    proof (cases "client a fl")
      case None
      from program_client_fails [OF Return None] show ?thesis by auto
    next
      case (Some svc1)
      show ?thesis
      proof (cases "\<forall>n\<in>set (requested fl). fetch_error a svc1 (Flags.Project fl) n = None")
        case True
        from program_ok [OF Return Some True] Some True show ?thesis
          by (simp add: serialized_text)
      next
        case False
        then obtain n1 e1 where "n1 \<in> set (requested fl)"
          and "fetch_error a svc1 (Flags.Project fl) n1 = Some e1"
          by auto
        from program_fetch_fails [OF Return Some this] show ?thesis by auto
      qed
    qed
  qed
  from fail either show ?thesis by blast
qed

theorem no_partial_output_witness:
  "fst (program failing_api failing_flags) = 1
   \<and> stdout (snd (program failing_api failing_flags)) = []
   \<and> Firewalls_List failing_api (ComputeService ''client'') ''demo''
       = Inr (Some [JObj [(''name'', JStr ''allow-ssh''), (''priority'', JNum 1000)]])"
proof -
  have i: "init failing_flags world0 =
      Return \<lparr>flags = failing_flags,
              config = \<lparr>Config.Service = [''firewalls'', ''networks''],
                        Config.Account = ''me'', Action_Import = False, Action_Export = True,
                        Config.Project = ''demo'', Config.Region = []\<rparr>,
              service = None\<rparr> world0"
    by (simp add: init_def failing_flags_def sample_flags_def config0_def)
  have c: "client failing_api failing_flags = Some (ComputeService ''client'')"
    by (simp add: client_def failing_api_def sample_api_def failing_flags_def sample_flags_def)
  have n: "''networks'' \<in> set (requested failing_flags)"
    by (simp add: requested_def failing_flags_def sample_flags_def)
  have e: "fetch_error failing_api (ComputeService ''client'') (Flags.Project failing_flags)
      ''networks'' = Some ''googleapi: Error 403: Forbidden''"
    by (simp add: fetch_error_def failing_api_def sample_api_def)
  have f: "Firewalls_List failing_api (ComputeService ''client'') ''demo''
       = Inr (Some [JObj [(''name'', JStr ''allow-ssh''), (''priority'', JNum 1000)]])"
    by (simp add: failing_api_def sample_api_def)
  from no_partial_output [of failing_flags _ world0 failing_api "ComputeService ''client''"
      "''networks''" "''googleapi: Error 403: Forbidden''"] i c n e f
  show ?thesis by blast
qed

text \<open>
  C7. When the loop has returned, it has issued one list call per occurrence of a
  registered name, in request order, so a name that occurs twice is fetched twice; each
  field of a requested kind holds what its call answers, whatever it held before; and
  the loop over the request without its duplicates returns the same aggregate.
\<close>

theorem duplicate_names_reinvoke_and_overwrite:
  assumes "service g = Some svc"
    and "export_loop a g names exp0 w = Return exp w'"
  shows "calls w' = calls w @ List.map_filter (call_of (Config.Project (config g))) names
       \<and> exp = fetched a svc (Config.Project (config g)) (set names) exp0
       \<and> (\<exists>w''. export_loop a g (remdups names) exp0 w = Return exp w'')"
proof -
  note ok = export_loop_Return_ok [OF assms(1,2)]
  from export_loop_ok [OF assms(1) ok, of exp0 w] assms(2)
  have e: "exp = fetched a svc (Config.Project (config g)) (set names) exp0"
    and c: "calls w' = calls w @ List.map_filter (call_of (Config.Project (config g))) names"
    by simp_all
  from ok
  have ok': "\<forall>n\<in>set (remdups names). fetch_error a svc (Config.Project (config g)) n = None"
    by simp
  from export_loop_ok [OF assms(1) ok', of exp0 w] e
  have "\<exists>w''. export_loop a g (remdups names) exp0 w = Return exp w''"
    by simp
  with e c show ?thesis by blast
qed

theorem duplicate_names_reinvoke_and_overwrite_witness:
  "\<exists>exp w' w''.
      export_loop sample_api sample_globals [''firewalls'', ''networks'', ''firewalls'']
        new_jsonData world0 = Return exp w'
    \<and> calls w' = [Call_Firewalls_List ''demo'', Call_Networks_List ''demo'',
                   Call_Firewalls_List ''demo'']
    \<and> export_loop sample_api sample_globals [''networks'', ''firewalls'']
        new_jsonData world0 = Return exp w''"
proof -
  have s: "service sample_globals = Some (ComputeService ''client'')"
    by (simp add: sample_globals_def)
  obtain exp w' where
    r: "export_loop sample_api sample_globals [''firewalls'', ''networks'', ''firewalls'']
          new_jsonData world0 = Return exp w'"
    by (simp add: services_Export_def exportFirewalls_def exportNetworks_def sample_globals_def
        sample_api_def)
  from duplicate_names_reinvoke_and_overwrite [OF s r] r show ?thesis
    by (auto simp: sample_globals_def world0_def call_of_def List.map_filter_simps)
qed

text \<open>
  C8 (as amended). When both \<^verbatim>\<open>-import\<close> and \<^verbatim>\<open>-export\<close> are set by the time the reading
  of the command line ends, the process exits without having issued any SDK call and
  without output. If the command line was read to its end, the exit status is 1 and the
  last thing on standard error is the program's usage text, unless \<^verbatim>\<open>-version\<close> is set
  too, in which case the version line is all that is printed. If the reading stopped at
  an error, the exit status is 2 and standard error has the error and the usage of the
  flag package; if it stopped at an undefined \<^verbatim>\<open>-h\<close>, the exit status is 0 and standard
  error has the usage of the flag package.
\<close>

theorem both_actions_exit_before_network:
  assumes "flag_parse flags0 args = (fl, out)"
    and "Import fl" and "Export fl"
  shows "calls (snd (process a prog args)) = []
       \<and> stdout (snd (process a prog args)) = []
       \<and> (case out of
            Parsed \<Rightarrow>
              fst (process a prog args) = 1
              \<and> (if Version fl
                 then stderr (snd (process a prog args)) =
                        [Fprintf (''Version: '' @ version @ [newline])]
                 else usage_printed (snd (process a prog args)))
          | Failed e \<Rightarrow>
              fst (process a prog args) = 2
              \<and> stderr (snd (process a prog args)) = FlagError e # flag_usage prog
          | HelpWanted \<Rightarrow>
              fst (process a prog args) = 0
              \<and> stderr (snd (process a prog args)) = flag_usage prog)"
proof (cases out)
  case Parsed
  with assms(1) have "process a prog args = program a fl"
    by (simp add: process_def)
  with program_both_actions [OF assms(2,3), of a] Parsed show ?thesis
    by simp
next
  case (Failed e)
  with assms(1) show ?thesis
    by (simp add: process_def world0_def)
next
  case HelpWanted
  with assms(1) show ?thesis
    by (simp add: process_def world0_def)
qed

text \<open>
  The claim as stated fails when \<^verbatim>\<open>-version\<close> is set as well: \<^verbatim>\<open>init\<close> answers the
  version before it looks at any other flag, and no usage text is printed, neither the
  program's nor the flag package's.
\<close>

theorem version_flag_suppresses_usage:
  "flag_parse flags0 version_args = (version_flags, Parsed)
   \<and> Import version_flags \<and> Export version_flags
   \<and> process sample_api ''gcloud-backup'' version_args =
       (1, \<lparr>stderr = [Fprintf (''Version: v0.1.0'' @ [newline])], stdout = [], calls = []\<rparr>)
   \<and> \<not> usage_printed (snd (process sample_api ''gcloud-backup'' version_args))
   \<and> PrintDefaults \<notin> set (stderr (snd (process sample_api ''gcloud-backup'' version_args)))"
  by (simp add: process_def flag_parse_version)
    (simp add: version_flags_def both_actions_flags_def sample_flags_def program_def init_def
      world0_def usage_printed_def usage_text_def version_def)

theorem both_actions_exit_before_network_witness:
  "process sample_api ''gcloud-backup'' both_actions_args =
       (1, \<lparr>stderr = Fprintf (''Error: please select an action - export/import'' @ [newline, newline])
                       # usage_text,
            stdout = [], calls = []\<rparr>)
   \<and> usage_printed (snd (process sample_api ''gcloud-backup'' both_actions_args))
   \<and> process sample_api ''gcloud-backup'' undefined_flag_args =
       (2, \<lparr>stderr = FlagError (NotDefined ''bogus'') # flag_usage ''gcloud-backup'',
            stdout = [], calls = []\<rparr>)
   \<and> process sample_api ''gcloud-backup'' help_args =
       (0, \<lparr>stderr = flag_usage ''gcloud-backup'', stdout = [], calls = []\<rparr>)"
proof -
  have i: "Import both_actions_flags" and e: "Export both_actions_flags"
    and v: "\<not> Version both_actions_flags"
    by (simp_all add: both_actions_flags_def sample_flags_def)
  have p: "process sample_api ''gcloud-backup'' both_actions_args =
       (1, \<lparr>stderr = Fprintf (''Error: please select an action - export/import'' @ [newline, newline])
                       # usage_text,
            stdout = [], calls = []\<rparr>)"
    unfolding process_def flag_parse_both_actions
    by (simp add: program_def init_def showUsage_def world0_def usage_text_def
        both_actions_flags_def sample_flags_def)
  have b: "Import (flags0\<lparr>Import := True, Export := True\<rparr>)"
    "Export (flags0\<lparr>Import := True, Export := True\<rparr>)"
    by simp_all
  from both_actions_exit_before_network
    [OF flag_parse_both_actions i e, of sample_api "''gcloud-backup''"] v
  have "usage_printed (snd (process sample_api ''gcloud-backup'' both_actions_args))"
    by simp
  moreover from both_actions_exit_before_network
    [OF flag_parse_undefined_flag b, of sample_api "''gcloud-backup''"]
  have "process sample_api ''gcloud-backup'' undefined_flag_args =
       (2, \<lparr>stderr = FlagError (NotDefined ''bogus'') # flag_usage ''gcloud-backup'',
            stdout = [], calls = []\<rparr>)"
    by (simp add: prod_eq_iff world.equality)
  moreover from both_actions_exit_before_network
    [OF flag_parse_help b, of sample_api "''gcloud-backup''"]
  have "process sample_api ''gcloud-backup'' help_args =
       (0, \<lparr>stderr = flag_usage ''gcloud-backup'', stdout = [], calls = []\<rparr>)"
    by (simp add: prod_eq_iff world.equality)
  ultimately show ?thesis
    using p by simp
qed

text \<open>
  C9. Two runs that differ only in the value of \<^verbatim>\<open>-region\<close> end alike: same exit
  status, same standard output and standard error, same SDK calls.
\<close>

theorem region_flag_unused:
  "program a (fl\<lparr>Flags.Region := r\<rparr>) = program a fl"
proof (cases "init fl world0")
  case (Exit n w)
  then show ?thesis by (simp add: program_def init_Region)
next
  case (Return g w0)
  have "main a (g\<lparr>flags := fl\<lparr>Flags.Region := r\<rparr>,
                   config := (config g)\<lparr>Config.Region := r\<rparr>\<rparr>) w0 = main a g w0"
    using init_Return [OF Return]
    by (intro main_cong_globals) simp_all
  with Return show ?thesis by (simp add: program_def init_Region)
qed

theorem region_flag_unused_witness:
  "program sample_api (sample_flags\<lparr>Flags.Region := ''europe-west1''\<rparr>)
     = program sample_api sample_flags
   \<and> fst (program sample_api sample_flags) = 0"
proof -
  have i: "init sample_flags world0 =
      Return \<lparr>flags = sample_flags,
              config = \<lparr>Config.Service = [''firewalls''],
                        Config.Account = ''me'', Action_Import = False, Action_Export = True,
                        Config.Project = ''demo'', Config.Region = []\<rparr>,
              service = None\<rparr> world0"
    by (simp add: init_def sample_flags_def config0_def)
  have c: "client sample_api sample_flags = Some (ComputeService ''client'')"
    by (simp add: client_def sample_api_def sample_flags_def)
  have ok: "\<forall>n\<in>set (requested sample_flags).
      fetch_error sample_api (ComputeService ''client'') (Flags.Project sample_flags) n = None"
    by (simp add: requested_def sample_flags_def fetch_error_def sample_api_def)
  from program_ok [OF i c ok] have "fst (program sample_api sample_flags) = 0"
    by simp
  with region_flag_unused [of sample_api "''europe-west1''" sample_flags] show ?thesis
    by simp
qed

text \<open>
  C10. When the aggregated list succeeds and every zone and region in it has zero
  addresses, \<^verbatim>\<open>exportAddresses\<close> returns an aggregate whose addresses field is an empty
  map, not nil; the document of that aggregate has no \<^verbatim>\<open>addresses\<close> key, and both
  serializations are those of the aggregate with a nil addresses field, as if addresses
  had never been requested.
\<close>

theorem empty_addresses_map_omitted:
  assumes "service g = Some svc"
    and "Addresses_AggregatedList a svc (Config.Project (config g)) = Inr items"
    and "\<forall>(k, v)\<in>set items. len (AddressesScopedList.Addresses v) = 0"
  shows "\<exists>exp' w'. exportAddresses a g exp w = Return exp' w'
           \<and> jsonData.Addresses exp' = Some []
           \<and> ''addresses'' \<notin> set (doc_keys (jsonData_doc exp'))
           \<and> json_Marshal exp' = json_Marshal (exp\<lparr>jsonData.Addresses := None\<rparr>)
           \<and> json_MarshalIndent exp' = json_MarshalIndent (exp\<lparr>jsonData.Addresses := None\<rparr>)"
proof -
  let ?exp = "exp\<lparr>jsonData.Addresses := Some []\<rparr>"
  have "range_Items items m = m" for m
    using assms(3) by (induction items arbitrary: m) auto
  with assms(1,2) have r: "\<exists>w'. exportAddresses a g exp w = Return ?exp w'"
    by (simp add: exportAddresses_def)
  have d: "jsonData_doc ?exp = jsonData_doc (exp\<lparr>jsonData.Addresses := None\<rparr>)"
    by (simp add: jsonData_doc_def omitempty_map_def)
  have "''addresses'' \<notin> set (doc_keys (jsonData_doc (exp\<lparr>jsonData.Addresses := None\<rparr>)))"
    by (auto simp: doc_keys_def jsonData_doc_def omitempty_slice_def omitempty_map_def)
  with d have k: "''addresses'' \<notin> set (doc_keys (jsonData_doc ?exp))"
    by simp
  have m: "json_Marshal ?exp = json_Marshal (exp\<lparr>jsonData.Addresses := None\<rparr>)"
    "json_MarshalIndent ?exp = json_MarshalIndent (exp\<lparr>jsonData.Addresses := None\<rparr>)"
    by (simp_all add: json_Marshal_def json_MarshalIndent_def d)
  have "jsonData.Addresses ?exp = Some []"
    by simp
  with r k m show ?thesis by blast
qed

theorem empty_addresses_map_omitted_witness:
  "\<exists>exp' w'. exportAddresses empty_scopes_api sample_globals new_jsonData world0 = Return exp' w'
     \<and> jsonData.Addresses exp' = Some []
     \<and> ''addresses'' \<notin> set (doc_keys (jsonData_doc exp'))
     \<and> json_Marshal exp' = json_Marshal new_jsonData
     \<and> json_MarshalIndent exp' = json_MarshalIndent new_jsonData"
proof -
  let ?items = "[(''zones/a'', \<lparr>AddressesScopedList.Addresses = Some [], Warning = None\<rparr>),
                 (''regions/b'', \<lparr>AddressesScopedList.Addresses = None, Warning = None\<rparr>)]"
  have s: "service sample_globals = Some (ComputeService ''client'')"
    by (simp add: sample_globals_def)
  have a: "Addresses_AggregatedList empty_scopes_api (ComputeService ''client'')
        (Config.Project (config sample_globals)) = Inr ?items"
    by (simp add: empty_scopes_api_def sample_api_def)
  have z: "\<forall>(k, v)\<in>set ?items. len (AddressesScopedList.Addresses v) = 0"
    by (simp add: len_def)
  have n: "new_jsonData\<lparr>jsonData.Addresses := None\<rparr> = new_jsonData"
    by (simp add: new_jsonData_def)
  from empty_addresses_map_omitted [OF s a z, of new_jsonData world0] show ?thesis
    unfolding n .
qed

end
